theory Spec2Isabelle
  imports Complex_Main
begin

section \<open>Arrays, vectors and errors\<close>

text \<open>
  The dataset of \<^verbatim>\<open>load_dslf_surface.py\<close> works on numpy arrays of floats. An array
  entry is modelled as a real number, so every arithmetic step below is exact; rounding
  of \<^verbatim>\<open>float32\<close> and \<^verbatim>\<open>float64\<close> is outside this model, except for the
  directions, whose \<^verbatim>\<open>float32\<close> arithmetic has a section of its own. Arrays of a fixed
  shape are tuples: a row of three floats is a \<open>vec3\<close>, the \<open>3 \<times> 3\<close> intrinsic
  matrix a \<open>mat3\<close> (a triple of rows), the \<open>4 \<times> 4\<close> pose a \<open>mat4\<close>. Arrays whose
  length depends on the image are lists in row-major order. An exception raised by
  Python or numpy is a value of type \<open>error\<close>.
\<close>

datatype error =
    KeyError | IndexError | ValueError | ZeroDivisionError | LinAlgError | RuntimeError

type_synonym vec3 = "real \<times> real \<times> real"
type_synonym mat3 = "vec3 \<times> vec3 \<times> vec3"
type_synonym vec4 = "real \<times> real \<times> real \<times> real"
type_synonym mat4 = "vec4 \<times> vec4 \<times> vec4 \<times> vec4"

text \<open>
  One row of \<^verbatim>\<open>x_train\<close>: the position and the direction. A direction whose three
  entries are NaN (numpy's result of \<open>0 / 0\<close>, which raises nothing) is \<open>None\<close>.
\<close>

type_synonym sample = "vec3 \<times> vec3 option"

fun vadd :: "vec3 \<Rightarrow> vec3 \<Rightarrow> vec3" where
  "vadd (a, b, c) (x, y, z) = (a + x, b + y, c + z)"

fun vsub :: "vec3 \<Rightarrow> vec3 \<Rightarrow> vec3" where
  "vsub (a, b, c) (x, y, z) = (a - x, b - y, c - z)"

fun dot :: "vec3 \<Rightarrow> vec3 \<Rightarrow> real" where
  "dot (a, b, c) (x, y, z) = a * x + b * y + c * z"

fun vscale :: "real \<Rightarrow> vec3 \<Rightarrow> vec3" where
  "vscale s (x, y, z) = (s * x, s * y, s * z)"

text \<open>\<^verbatim>\<open>A.T\<close>\<close>

fun transpose3 :: "mat3 \<Rightarrow> mat3" where
  "transpose3 ((a, b, c), (d, e, f), (g, h, i)) = ((a, d, g), (b, e, h), (c, f, i))"

text \<open>\<^verbatim>\<open>np.matmul(A, B)\<close> for two \<open>3 \<times> 3\<close> arrays: entry \<open>(r, c)\<close> is row \<open>r\<close> of
  \<open>A\<close> times column \<open>c\<close> of \<open>B\<close>.\<close>

fun matmul3 :: "mat3 \<Rightarrow> mat3 \<Rightarrow> mat3" where
  "matmul3 (r0, r1, r2) B =
     (case transpose3 B of (c0, c1, c2) \<Rightarrow>
        ((dot r0 c0, dot r0 c1, dot r0 c2),
         (dot r1 c0, dot r1 c1, dot r1 c2),
         (dot r2 c0, dot r2 c1, dot r2 c2)))"

text \<open>One row of \<^verbatim>\<open>np.matmul(uvd, B)\<close>: the row vector \<open>p\<close> times the matrix \<open>B\<close>.\<close>

fun vec_mat :: "vec3 \<Rightarrow> mat3 \<Rightarrow> vec3" where
  "vec_mat p B = (case transpose3 B of (c0, c1, c2) \<Rightarrow> (dot p c0, dot p c1, dot p c2))"

text \<open>The matrix \<open>A\<close> applied to the column vector \<open>p\<close>; used to state the claims.\<close>

fun mat_vec :: "mat3 \<Rightarrow> vec3 \<Rightarrow> vec3" where
  "mat_vec (r0, r1, r2) p = (dot r0 p, dot r1 p, dot r2 p)"

definition ident3 :: mat3 where
  "ident3 = ((1, 0, 0), (0, 1, 0), (0, 0, 1))"

fun det3 :: "mat3 \<Rightarrow> real" where
  "det3 ((a, b, c), (d, e, f), (g, h, i)) =
     a * (e * i - f * h) - b * (d * i - f * g) + c * (d * h - e * g)"

text \<open>
  \<^verbatim>\<open>np.linalg.inv(K)\<close>: raises \<^verbatim>\<open>LinAlgError\<close> on a singular matrix, and returns
  the inverse otherwise (over the reals the inverse is the adjugate divided by the
  determinant, whatever factorisation computes it).
\<close>

fun inv3 :: "mat3 \<Rightarrow> error + mat3" where
  "inv3 ((a, b, c), (d, e, f), (g, h, i)) =
     (let dt = det3 ((a, b, c), (d, e, f), (g, h, i)) in
      if dt = 0 then Inl LinAlgError
      else Inr (((e * i - f * h) / dt, (c * h - b * i) / dt, (b * f - c * e) / dt),
                ((f * g - d * i) / dt, (a * i - c * g) / dt, (c * d - a * f) / dt),
                ((d * h - e * g) / dt, (b * g - a * h) / dt, (a * e - b * d) / dt)))"

text \<open>\<^verbatim>\<open>np.linalg.norm(dirs, axis=1, keepdims=True)\<close>, one row.\<close>

fun norm3 :: "vec3 \<Rightarrow> real" where
  "norm3 (x, y, z) = sqrt (x * x + y * y + z * z)"

text \<open>
  One row of \<^verbatim>\<open>dirs / np.linalg.norm(dirs, axis=1, keepdims=True)\<close>. A row of norm
  zero is the zero row, and numpy's \<open>0 / 0\<close> is NaN in each entry: \<open>None\<close>.
\<close>

definition normalize3 :: "vec3 \<Rightarrow> vec3 option" where
  "normalize3 p = (if norm3 p = 0 then None else Some (vscale (1 / norm3 p) p))"

text \<open>\<^verbatim>\<open>c2w[:3,:3]\<close> and \<^verbatim>\<open>c2w[:3, 3]\<close>.\<close>

fun rot_of :: "mat4 \<Rightarrow> mat3" where
  "rot_of ((a, b, c, d), (e, f, g, h), (i, j, k, l), r3) = ((a, b, c), (e, f, g), (i, j, k))"

fun trans_of :: "mat4 \<Rightarrow> vec3" where
  "trans_of ((a, b, c, d), (e, f, g, h), (i, j, k, l), r3) = (d, h, l)"

text \<open>Boolean-mask indexing \<^verbatim>\<open>a[mask]\<close>: numpy raises \<^verbatim>\<open>IndexError\<close> when the mask's
  length is not the array's, and keeps the rows whose mask entry is true, in order.\<close>

definition bool_index :: "'a list \<Rightarrow> bool list \<Rightarrow> error + 'a list" where
  "bool_index xs msk =
     (if length msk = length xs then Inr (map fst (filter snd (zip xs msk)))
      else Inl IndexError)"

text \<open>\<^verbatim>\<open>np.sum(mask)\<close>\<close>

definition count_true :: "bool list \<Rightarrow> nat" where
  "count_true msk = length (filter (\<lambda>b. b) msk)"

text \<open>A dictionary lookup \<^verbatim>\<open>d[k]\<close>.\<close>

definition lookup :: "('k \<rightharpoonup> 'v) \<Rightarrow> 'k \<Rightarrow> error + 'v" where
  "lookup d k = (case d k of None \<Rightarrow> Inl KeyError | Some v \<Rightarrow> Inr v)"

text \<open>List indexing \<^verbatim>\<open>xs[i]\<close>: a negative index counts from the end.\<close>

definition list_get :: "'a list \<Rightarrow> int \<Rightarrow> error + 'a" where
  "list_get xs i =
     (if 0 \<le> i \<and> i < int (length xs) then Inr (xs ! nat i)
      else if i < 0 \<and> - int (length xs) \<le> i then Inr (xs ! nat (int (length xs) + i))
      else Inl IndexError)"

section \<open>The dataset\<close>

text \<open>
  The fields of \<^verbatim>\<open>DslfSurfaceDataset\<close>. The dictionaries are keyed by image
  identifier. \<open>rdwrapper\<close> is the depth renderer, an object of a type this model does
  not look into.
\<close>

record 'rd dataset =
  datadir :: string
  list_ids :: "string list"
  list_images :: "string \<rightharpoonup> string"
  list_poses :: "string \<rightharpoonup> mat4"
  list_Ks :: "string \<rightharpoonup> mat3"
  labels :: "string \<rightharpoonup> vec3 list"
  depths :: "string \<rightharpoonup> real list"
  limit :: "int option"
  rdwrapper :: 'rd
  x_trains :: "string \<rightharpoonup> sample list"
  masks :: "string \<rightharpoonup> bool list"
  H :: nat
  W :: nat
  H_scale :: real
  W_scale :: real

section \<open>\<^verbatim>\<open>calculate_x_y_z_theta_phi\<close>\<close>

text \<open>
  \<^verbatim>\<open>np.stack(np.meshgrid(ucoords, vcoords), -1).reshape(-1, 2)\<close>: the pixel
  coordinates \<open>(u, v)\<close> in row-major order, \<open>u\<close> running fastest.
\<close>

definition meshgrid_uv :: "nat \<Rightarrow> nat \<Rightarrow> (real \<times> real) list" where
  "meshgrid_uv w h = concat (map (\<lambda>v. map (\<lambda>u. (real u, real v)) [0..<w]) [0..<h])"

text \<open>\<^verbatim>\<open>np.concatenate([uv, depth], axis=1)\<close>: numpy raises \<^verbatim>\<open>ValueError\<close> when the
  two arrays differ in their number of rows.\<close>

definition concatenate_uvd :: "(real \<times> real) list \<Rightarrow> real list \<Rightarrow> error + vec3 list" where
  "concatenate_uvd uv depth =
     (if length depth = length uv then Inr (map (\<lambda>((u, v), d). (u, v, d)) (zip uv depth))
      else Inl ValueError)"

text \<open>\<^verbatim>\<open>uvd[:, 2] != 0.\<close>\<close>

definition depth_mask :: "vec3 list \<Rightarrow> bool list" where
  "depth_mask uvd = map (\<lambda>(u, v, d). d \<noteq> 0) uvd"

text \<open>\<^verbatim>\<open>int(np.log(limit/base) // np.log(1.-1./(W*H)))\<close>, for \<open>0 < limit < base\<close> and
  \<open>2 \<le> W * H\<close>, where both logarithms are finite and negative.\<close>

definition draw_count :: "int \<Rightarrow> nat \<Rightarrow> nat \<Rightarrow> nat" where
  "draw_count lmt base n = nat \<lfloor>ln (real_of_int lmt / real base) / ln (1 - 1 / real n)\<rfloor>"

text \<open>\<^verbatim>\<open>mask[idx] = False\<close> for an array \<open>idx\<close> of indices: numpy raises
  \<^verbatim>\<open>IndexError\<close> when an index is out of bounds.\<close>

definition assign_false :: "bool list \<Rightarrow> nat list \<Rightarrow> error + bool list" where
  "assign_false msk idx =
     (if list_all (\<lambda>i. i < length msk) idx then Inr (fold (\<lambda>i m. m[i := False]) idx msk)
      else Inl IndexError)"

text \<open>
  The subsampling step. The random generator is a parameter: \<open>randint g n k\<close> stands
  for \<^verbatim>\<open>np.random.randint(0, n, (k,))\<close> in generator state \<open>g\<close>, and returns the
  array drawn with the next state.

  Where the branch is entered with \<open>W * H = 0\<close>, Python's \<^verbatim>\<open>1./(W*H)\<close> raises
  \<^verbatim>\<open>ZeroDivisionError\<close>. Where it is entered with \<open>limit \<le> 0\<close>, the logarithm of
  \<^verbatim>\<open>limit/base\<close> is NaN or \<open>-inf\<close>, the floor division is NaN, and \<^verbatim>\<open>int\<close>
  raises \<^verbatim>\<open>ValueError\<close>.
\<close>

definition subsample ::
  "('g \<Rightarrow> nat \<Rightarrow> nat \<Rightarrow> nat list \<times> 'g) \<Rightarrow> 'g \<Rightarrow> int option \<Rightarrow> nat \<Rightarrow> bool list
     \<Rightarrow> error + (bool list \<times> 'g)" where
  "subsample randint g lmt n msk =
     (let base = count_true msk in
      case lmt of
        None \<Rightarrow> Inr (msk, g)
      | Some l \<Rightarrow>
          if l < int base then
            if n = 0 then Inl ZeroDivisionError
            else if l \<le> 0 then Inl ValueError
            else
              (case randint g n (draw_count l base n) of
                 (idx, g') \<Rightarrow>
                   (case assign_false msk idx of
                      Inl e \<Rightarrow> Inl e
                    | Inr m \<Rightarrow> Inr (m, g')))
          else Inr (msk, g))"

text \<open>\<^verbatim>\<open>uvd[:,:2] = uvd[:,:2] * uvd[:,2:3]\<close>\<close>

definition scale_uv :: "vec3 list \<Rightarrow> vec3 list" where
  "scale_uv uvd = map (\<lambda>(u, v, d). (u * d, v * d, d)) uvd"

text \<open>\<^verbatim>\<open>np.matmul(uvd, np.matmul(c2w[:3,:3], np.linalg.inv(K)).T) + c2w[:3, 3].T\<close>\<close>

definition unproject :: "mat4 \<Rightarrow> mat3 \<Rightarrow> vec3 list \<Rightarrow> error + vec3 list" where
  "unproject c2w K uvd =
     (case inv3 K of
        Inl e \<Rightarrow> Inl e
      | Inr Kinv \<Rightarrow>
          Inr (map (\<lambda>p. vadd (vec_mat p (transpose3 (matmul3 (rot_of c2w) Kinv))) (trans_of c2w))
                 uvd))"

text \<open>\<^verbatim>\<open>dirs = x_train - c2w[:3, 3].T\<close>, then each row divided by its norm.\<close>

definition directions :: "mat4 \<Rightarrow> vec3 list \<Rightarrow> vec3 option list" where
  "directions c2w x_train = map (\<lambda>x. normalize3 (vsub x (trans_of c2w))) x_train"

text \<open>
  The method itself. It returns \<^verbatim>\<open>x_train\<close> (\<^verbatim>\<open>np.hstack\<close> of the positions and
  the directions, row by row) and the mask, and here also the generator's next state.
\<close>

definition calculate_x_y_z_theta_phi ::
  "('g \<Rightarrow> nat \<Rightarrow> nat \<Rightarrow> nat list \<times> 'g) \<Rightarrow> 'g \<Rightarrow> 'rd dataset \<Rightarrow> string
     \<Rightarrow> error + ((sample list \<times> bool list) \<times> 'g)" where
  "calculate_x_y_z_theta_phi randint g self ident =
     (case lookup (labels self) ident of Inl e \<Rightarrow> Inl e | Inr label \<Rightarrow>
      case lookup (depths self) ident of Inl e \<Rightarrow> Inl e | Inr depth \<Rightarrow>
      case lookup (list_poses self) ident of Inl e \<Rightarrow> Inl e | Inr c2w \<Rightarrow>
      case lookup (list_Ks self) ident of Inl e \<Rightarrow> Inl e | Inr K \<Rightarrow>
      case concatenate_uvd (meshgrid_uv (W self) (H self)) depth of Inl e \<Rightarrow> Inl e | Inr uvd \<Rightarrow>
      case subsample randint g (limit self) (W self * H self) (depth_mask uvd) of
        Inl e \<Rightarrow> Inl e | Inr (msk, g') \<Rightarrow>
      case bool_index uvd msk of Inl e \<Rightarrow> Inl e | Inr kept \<Rightarrow>
      case unproject c2w K (scale_uv kept) of Inl e \<Rightarrow> Inl e | Inr x_train \<Rightarrow>
        Inr ((zip x_train (directions c2w x_train), msk), g'))"

section \<open>\<^verbatim>\<open>__getitem__\<close> and the last loop of the constructor\<close>

text \<open>\<^verbatim>\<open>__getitem__\<close> returns its triple; the dataset after the call is returned with
  it, so that what the call does to the object's fields can be stated.\<close>

definition getitem ::
  "'rd dataset \<Rightarrow> int
     \<Rightarrow> error + ((sample list \<times> vec3 list \<times> bool list) \<times> 'rd dataset)" where
  "getitem self index =
     (case list_get (list_ids self) index of Inl e \<Rightarrow> Inl e | Inr ident \<Rightarrow>
      case lookup (masks self) ident of Inl e \<Rightarrow> Inl e | Inr msk \<Rightarrow>
      case lookup (x_trains self) ident of Inl e \<Rightarrow> Inl e | Inr xt \<Rightarrow>
      case lookup (labels self) ident of Inl e \<Rightarrow> Inl e | Inr label \<Rightarrow>
      case bool_index label msk of Inl e \<Rightarrow> Inl e | Inr masked \<Rightarrow>
      case lookup (masks self) ident of Inl e \<Rightarrow> Inl e | Inr msk2 \<Rightarrow>
        Inr ((xt, masked, msk2), self))"

text \<open>
  \<^verbatim>\<open>for id in tqdm(list_ids): self.x_trains[id], self.masks[id] =
  self.calculate_x_y_z_theta_phi(id)\<close>
\<close>

fun precalculate ::
  "('g \<Rightarrow> nat \<Rightarrow> nat \<Rightarrow> nat list \<times> 'g) \<Rightarrow> 'g \<Rightarrow> 'rd dataset \<Rightarrow> string list
     \<Rightarrow> error + ('rd dataset \<times> 'g)" where
  "precalculate randint g self [] = Inr (self, g)"
| "precalculate randint g self (ident # ids) =
     (case calculate_x_y_z_theta_phi randint g self ident of
        Inl e \<Rightarrow> Inl e
      | Inr ((xt, msk), g') \<Rightarrow>
          precalculate randint g'
            (self\<lparr>x_trains := (x_trains self)(ident \<mapsto> xt),
                  masks := (masks self)(ident \<mapsto> msk)\<rparr>) ids)"

section \<open>The constructor: camera poses and labels\<close>

text \<open>
  \<^verbatim>\<open>str.split()\<close> with no argument: the maximal runs of characters that are not
  whitespace, in order. Strings are ASCII here; the whitespace characters of ASCII that
  Python's \<^verbatim>\<open>str\<close> splits on are the codes 9 to 13, 28 to 31 and 32.
\<close>

definition is_space :: "char \<Rightarrow> bool" where
  "is_space c = (let k = (of_char c :: nat) in (9 \<le> k \<and> k \<le> 13) \<or> (28 \<le> k \<and> k \<le> 32))"

fun split_acc :: "string \<Rightarrow> string \<Rightarrow> string list" where
  "split_acc cur [] = (if cur = [] then [] else [cur])"
| "split_acc cur (c # cs) =
     (if is_space c then (if cur = [] then split_acc [] cs else cur # split_acc [] cs)
      else split_acc (cur @ [c]) cs)"

definition split_ws :: "string \<Rightarrow> string list" where
  "split_ws s = split_acc [] s"

text \<open>
  \<^verbatim>\<open>for i in range(16): M[i] = float(extrinsic[i])\<close>, on the array \<open>M\<close> of sixteen
  zeros. Python's \<^verbatim>\<open>float\<close> is the parameter \<open>pyfloat\<close> (\<open>None\<close> where it raises
  \<^verbatim>\<open>ValueError\<close>); a token that is missing raises \<^verbatim>\<open>IndexError\<close>.
\<close>

fun fill_floats ::
  "(string \<Rightarrow> real option) \<Rightarrow> string list \<Rightarrow> nat list \<Rightarrow> real list \<Rightarrow> error + real list" where
  "fill_floats pyfloat toks [] M = Inr M"
| "fill_floats pyfloat toks (i # rest) M =
     (if i < length toks then
        (case pyfloat (toks ! i) of
           None \<Rightarrow> Inl ValueError
         | Some x \<Rightarrow> fill_floats pyfloat toks rest (M[i := x]))
      else Inl IndexError)"

text \<open>\<^verbatim>\<open>np.reshape(M, (4,4))\<close> of an array of sixteen entries: row-major.\<close>

definition reshape44 :: "real list \<Rightarrow> mat4" where
  "reshape44 M =
     ((M ! 0, M ! 1, M ! 2, M ! 3), (M ! 4, M ! 5, M ! 6, M ! 7),
      (M ! 8, M ! 9, M ! 10, M ! 11), (M ! 12, M ! 13, M ! 14, M ! 15))"

text \<open>\<^verbatim>\<open>M[:, 1] = -M[:, 1]\<close> and \<^verbatim>\<open>M[:, 2] = -M[:, 2]\<close>\<close>

fun negate_col1 :: "mat4 \<Rightarrow> mat4" where
  "negate_col1 ((a, b, c, d), (e, f, g, h), (i, j, k, l), (m, n, p, q)) =
     ((a, - b, c, d), (e, - f, g, h), (i, - j, k, l), (m, - n, p, q))"

fun negate_col2 :: "mat4 \<Rightarrow> mat4" where
  "negate_col2 ((a, b, c, d), (e, f, g, h), (i, j, k, l), (m, n, p, q)) =
     ((a, b, - c, d), (e, f, - g, h), (i, j, - k, l), (m, n, - p, q))"

text \<open>The pose of one identifier, from the text that follows the identifier on its line
  of the extrinsic file.\<close>

definition parse_pose :: "(string \<Rightarrow> real option) \<Rightarrow> string \<Rightarrow> error + mat4" where
  "parse_pose pyfloat extrinsic =
     (case fill_floats pyfloat (split_ws extrinsic) [0..<16] (replicate 16 0) of
        Inl e \<Rightarrow> Inl e
      | Inr M \<Rightarrow> Inr (negate_col2 (negate_col1 (reshape44 M))))"

text \<open>
  An image as \<^verbatim>\<open>imageio.imread(path, pilmode='RGB')\<close> returns it: its shape
  \<open>(rows, columns)\<close> and its pixels in row-major order, three bytes each.
\<close>

record image =
  shape :: "nat \<times> nat"
  pixels :: "(nat \<times> nat \<times> nat) list"

text \<open>\<^verbatim>\<open>np.array(I) / 255.\<close>, one pixel.\<close>

fun div255 :: "nat \<times> nat \<times> nat \<Rightarrow> vec3" where
  "div255 (r, g, b) = (real r / 255, real g / 255, real b / 255)"

text \<open>
  Modelled from the spec: \<^verbatim>\<open>cv2.resize(I, (W, H), interpolation=cv2.INTER_LINEAR)\<close> is
  a library call, and the spec calls it linear interpolation. A pixel of the output is a
  weighted sum of pixels of the input; which pixels, and with which weights, depends on
  the two shapes only. \<open>taps\<close> lists them for every output pixel, as pairs of an index
  into the input and a weight.
\<close>

definition interpolate :: "(nat \<times> real) list \<Rightarrow> vec3 list \<Rightarrow> vec3" where
  "interpolate ts img = foldr (\<lambda>(i, w) acc. vadd (vscale w (img ! i)) acc) ts (0, 0, 0)"

definition resize_linear :: "(nat \<times> real) list list \<Rightarrow> vec3 list \<Rightarrow> vec3 list" where
  "resize_linear taps img = map (\<lambda>ts. interpolate ts img) taps"

text \<open>
  The label of one image, as the constructor computes it: divide by 255, then resize
  where the shape is not the target's. \<open>taps src dst\<close> is the interpolation from shape
  \<open>src\<close> to shape \<open>dst\<close>.
\<close>

definition load_label ::
  "(nat \<times> nat \<Rightarrow> nat \<times> nat \<Rightarrow> (nat \<times> real) list list) \<Rightarrow> nat \<Rightarrow> nat \<Rightarrow> image \<Rightarrow> vec3 list" where
  "load_label taps hh ww img =
     (let I = map div255 (pixels img) in
      if shape img \<noteq> (hh, ww) then resize_linear (taps (shape img) (hh, ww)) I else I)"

text \<open>
  The order of the specification: resize the image as read where the shape is not the
  target's, then divide by 255.
\<close>

fun byte_vec :: "nat \<times> nat \<times> nat \<Rightarrow> vec3" where
  "byte_vec (r, g, b) = (real r, real g, real b)"

definition load_label_spec ::
  "(nat \<times> nat \<Rightarrow> nat \<times> nat \<Rightarrow> (nat \<times> real) list list) \<Rightarrow> nat \<Rightarrow> nat \<Rightarrow> image \<Rightarrow> vec3 list" where
  "load_label_spec taps hh ww img =
     (let I = map byte_vec (pixels img);
          R = (if shape img \<noteq> (hh, ww) then resize_linear (taps (shape img) (hh, ww)) I else I)
      in map (vscale (1 / 255)) R)"

text \<open>The taps of an interpolation read pixels of the input only.\<close>

definition taps_in_range :: "(nat \<times> real) list list \<Rightarrow> nat \<Rightarrow> bool" where
  "taps_in_range taps n = list_all (list_all (\<lambda>(i, w). i < n)) taps"

section \<open>The Gaussian frequency basis\<close>

text \<open>
  \<^verbatim>\<open>residual_regression.py\<close>, model type \<^verbatim>\<open>ffm\<close>: where no checkpoint gave
  \<^verbatim>\<open>model_params\<close>, \<^verbatim>\<open>B = torch.normal(0, 1, size=(ffm_map_size, 6)) *
  ffm_map_scale\<close>, and the checkpoint's matrix otherwise. \<open>normal g r c\<close> stands for
  \<^verbatim>\<open>torch.normal(0, 1, size=(r, c))\<close> in generator state \<open>g\<close>; torch raises
  \<^verbatim>\<open>RuntimeError\<close> on a negative size.
\<close>

definition ffm_B ::
  "('g \<Rightarrow> nat \<Rightarrow> nat \<Rightarrow> real list list \<times> 'g) \<Rightarrow> 'g \<Rightarrow> real list list option \<Rightarrow> int \<Rightarrow> real
     \<Rightarrow> error + (real list list \<times> 'g)" where
  "ffm_B normal g model_params ffm_map_size ffm_map_scale =
     (case model_params of
        None \<Rightarrow>
          if ffm_map_size < 0 then Inl RuntimeError
          else (case normal g (nat ffm_map_size) 6 of
                  (Z, g') \<Rightarrow> Inr (map (map (\<lambda>z. z * ffm_map_scale)) Z, g'))
      | Some B \<Rightarrow> Inr (B, g))"

section \<open>The directions in float32\<close>




















section \<open>Notions the properties are stated with\<close>


text \<open>The contract of \<^verbatim>\<open>torch.normal(0, 1, size=(r, c))\<close>: \<open>r\<close> rows of \<open>c\<close> entries.\<close>

definition normal_ok :: "('g \<Rightarrow> nat \<Rightarrow> nat \<Rightarrow> real list list \<times> 'g) \<Rightarrow> bool" where
  "normal_ok normal =
     (\<forall>g r c. length (fst (normal g r c)) = r \<and> list_all (\<lambda>row. length row = c) (fst (normal g r c)))"

text \<open>The pixels a mask keeps, as row-major indices in increasing order.\<close>

definition retained :: "bool list \<Rightarrow> nat list" where
  "retained msk = filter (\<lambda>i. msk ! i) [0..<length msk]"

text \<open>
  The position of pixel \<open>i\<close> (row-major, so \<open>u = i mod W\<close> and \<open>v = i div W\<close>) as the
  specification states it: \<open>R \<cdot> K\<^sup>-\<^sup>1 \<cdot> (u * d, v * d, d) + t\<close>, with \<open>Kinv\<close> for
  the inverse of the intrinsic matrix.
\<close>

definition spec_position :: "nat \<Rightarrow> real list \<Rightarrow> mat4 \<Rightarrow> mat3 \<Rightarrow> nat \<Rightarrow> vec3" where
  "spec_position w depth c2w Kinv i =
     (let u = real (i mod w); v = real (i div w); d = depth ! i in
      vadd (mat_vec (rot_of c2w) (mat_vec Kinv (u * d, v * d, d))) (trans_of c2w))"






text \<open>Every sequence of \<open>k\<close> draws from \<open>{0, \<dots>, n - 1}\<close>, once each: the outcomes of
  \<open>k\<close> independent uniform draws, all equally likely.\<close>

fun all_draws :: "nat \<Rightarrow> nat \<Rightarrow> nat list list" where
  "all_draws n 0 = [[]]"
| "all_draws n (Suc k) = concat (map (\<lambda>y. map ((#) y) (all_draws n k)) [0..<n])"





section \<open>Example data\<close>

text \<open>
  A camera at \<open>(0, 0, -2)\<close> that looks along \<open>+z\<close>, with the identity as intrinsic
  matrix, and an image of \<open>2 \<times> 2\<close> pixels; the limit and the depth buffer vary.
\<close>

definition pose_ex :: mat4 where
  "pose_ex = ((1, 0, 0, 0), (0, 1, 0, 0), (0, 0, 1, - 2), (0, 0, 0, 1))"

definition dataset_ex :: "mat4 \<Rightarrow> int option \<Rightarrow> real list \<Rightarrow> unit dataset" where
  "dataset_ex c2w lmt depth =
     \<lparr>datadir = ''data'', list_ids = [''a''], list_images = [''a'' \<mapsto> ''data/a.png''],
      list_poses = [''a'' \<mapsto> c2w], list_Ks = [''a'' \<mapsto> ident3],
      labels = [''a'' \<mapsto> [(1, 0, 0), (0, 1, 0), (0, 0, 1), (1, 1, 1)]],
      depths = [''a'' \<mapsto> depth], limit = lmt, rdwrapper = (),
      x_trains = Map.empty, masks = Map.empty, H = 2, W = 2, H_scale = 1, W_scale = 1\<rparr>"





text \<open>A generator that counts: from state \<open>g\<close> it draws \<open>g\<close>, \<open>g + 1\<close>, \<open>\<dots>\<close>, each
  reduced modulo \<open>n\<close>.\<close>

definition randint_ex :: "nat \<Rightarrow> nat \<Rightarrow> nat \<Rightarrow> nat list \<times> nat" where
  "randint_ex g n k = (map (\<lambda>j. (g + j) mod n) [0..<k], g + k)"

text \<open>Python's \<^verbatim>\<open>float\<close> on a few tokens, for the examples.\<close>

definition pyfloat_ex :: "string \<Rightarrow> real option" where
  "pyfloat_ex s =
     (if s = ''0'' then Some 0 else if s = ''1'' then Some 1 else if s = ''2'' then Some 2
      else if s = ''-2'' then Some (- 2) else None)"

text \<open>An image of one row and two pixels, black and white, and the interpolation that
  averages them into one pixel.\<close>

definition image_ex :: image where
  "image_ex = \<lparr>shape = (1, 2), pixels = [(0, 0, 0), (255, 255, 255)]\<rparr>"

definition taps_ex :: "nat \<times> nat \<Rightarrow> nat \<times> nat \<Rightarrow> (nat \<times> real) list list" where
  "taps_ex src dst = [[(0, 1 / 2), (1, 1 / 2)]]"

text \<open>A draw of \<^verbatim>\<open>torch.normal\<close> in which every entry is one.\<close>

definition normal_ex :: "unit \<Rightarrow> nat \<Rightarrow> nat \<Rightarrow> real list list \<times> unit" where
  "normal_ex g r c = (replicate r (replicate c 1), g)"

section \<open>Matrices and lists\<close>

lemma vec_mat_transpose3: "vec_mat p (transpose3 A) = mat_vec A p"
proof -
  obtain a b c d e f g h i where A: "A = ((a, b, c), (d, e, f), (g, h, i))"
    by (metis prod_cases3)
  obtain x y z where p: "p = (x, y, z)" by (metis prod_cases3)
  show ?thesis by (simp add: A p)
qed

lemma mat_vec_matmul3: "mat_vec (matmul3 A B) p = mat_vec A (mat_vec B p)"
proof -
  obtain a b c d e f g h i where A: "A = ((a, b, c), (d, e, f), (g, h, i))"
    by (metis prod_cases3)
  obtain a' b' c' d' e' f' g' h' i' where B: "B = ((a', b', c'), (d', e', f'), (g', h', i'))"
    by (metis prod_cases3)
  obtain x y z where p: "p = (x, y, z)" by (metis prod_cases3)
  show ?thesis by (simp add: A B p algebra_simps)
qed

lemma mat_vec_ident3: "mat_vec ident3 p = p"
  by (cases p rule: prod_cases3) (simp add: ident3_def)

lemma inv_entry_one:
  fixes D :: real
  shows "D \<noteq> 0 \<Longrightarrow> x * p + y * q + z * r = D \<Longrightarrow> x * (p / D) + y * (q / D) + z * (r / D) = 1"
  by (simp add: add_divide_distrib [symmetric])

lemma inv_entry_zero:
  fixes D :: real
  shows "x * p + y * q + z * r = 0 \<Longrightarrow> x * (p / D) + y * (q / D) + z * (r / D) = 0"
  by (simp add: add_divide_distrib [symmetric])

lemma inv3_Inr:
  assumes "inv3 ((a, b, c), (d, e, f), (g, h, i)) = Inr Ki"
  defines "D \<equiv> a * (e * i - f * h) - b * (d * i - f * g) + c * (d * h - e * g)"
  shows "D \<noteq> 0"
    and "Ki = (((e * i - f * h) / D, (c * h - b * i) / D, (b * f - c * e) / D),
               ((f * g - d * i) / D, (a * i - c * g) / D, (c * d - a * f) / D),
               ((d * h - e * g) / D, (b * g - a * h) / D, (a * e - b * d) / D))"
  using assms by (auto simp: Let_def split: if_splits)

lemma inv3_right:
  assumes "inv3 K = Inr Ki"
  shows "matmul3 K Ki = ident3"
proof -
  obtain a b c d e f g h i where K: "K = ((a, b, c), (d, e, f), (g, h, i))"
    by (metis prod_cases3)
  define D where "D = a * (e * i - f * h) - b * (d * i - f * g) + c * (d * h - e * g)"
  have dt: "D \<noteq> 0" and Ki: "Ki = (((e * i - f * h) / D, (c * h - b * i) / D, (b * f - c * e) / D),
               ((f * g - d * i) / D, (a * i - c * g) / D, (c * d - a * f) / D),
               ((d * h - e * g) / D, (b * g - a * h) / D, (a * e - b * d) / D))"
    using inv3_Inr [OF assms [unfolded K]] by (simp_all add: D_def)
  have r00: "a * ((e * i - f * h) / D) + b * ((f * g - d * i) / D) + c * ((d * h - e * g) / D) = 1"
    by (rule inv_entry_one [OF dt]) (simp add: D_def algebra_simps)
  have r01: "a * ((c * h - b * i) / D) + b * ((a * i - c * g) / D) + c * ((b * g - a * h) / D) = 0"
    by (rule inv_entry_zero) (simp add: algebra_simps)
  have r02: "a * ((b * f - c * e) / D) + b * ((c * d - a * f) / D) + c * ((a * e - b * d) / D) = 0"
    by (rule inv_entry_zero) (simp add: algebra_simps)
  have r10: "d * ((e * i - f * h) / D) + e * ((f * g - d * i) / D) + f * ((d * h - e * g) / D) = 0"
    by (rule inv_entry_zero) (simp add: algebra_simps)
  have r11: "d * ((c * h - b * i) / D) + e * ((a * i - c * g) / D) + f * ((b * g - a * h) / D) = 1"
    by (rule inv_entry_one [OF dt]) (simp add: D_def algebra_simps)
  have r12: "d * ((b * f - c * e) / D) + e * ((c * d - a * f) / D) + f * ((a * e - b * d) / D) = 0"
    by (rule inv_entry_zero) (simp add: algebra_simps)
  have r20: "g * ((e * i - f * h) / D) + h * ((f * g - d * i) / D) + i * ((d * h - e * g) / D) = 0"
    by (rule inv_entry_zero) (simp add: algebra_simps)
  have r21: "g * ((c * h - b * i) / D) + h * ((a * i - c * g) / D) + i * ((b * g - a * h) / D) = 0"
    by (rule inv_entry_zero) (simp add: algebra_simps)
  have r22: "g * ((b * f - c * e) / D) + h * ((c * d - a * f) / D) + i * ((a * e - b * d) / D) = 1"
    by (rule inv_entry_one [OF dt]) (simp add: D_def algebra_simps)
  show ?thesis
    by (simp only: K Ki matmul3.simps transpose3.simps dot.simps prod.case ident3_def
        r00 r01 r02 r10 r11 r12 r20 r21 r22)
qed

lemma inv3_left:
  assumes "inv3 K = Inr Ki"
  shows "matmul3 Ki K = ident3"
proof -
  obtain a b c d e f g h i where K: "K = ((a, b, c), (d, e, f), (g, h, i))"
    by (metis prod_cases3)
  define D where "D = a * (e * i - f * h) - b * (d * i - f * g) + c * (d * h - e * g)"
  have dt: "D \<noteq> 0" and Ki: "Ki = (((e * i - f * h) / D, (c * h - b * i) / D, (b * f - c * e) / D),
               ((f * g - d * i) / D, (a * i - c * g) / D, (c * d - a * f) / D),
               ((d * h - e * g) / D, (b * g - a * h) / D, (a * e - b * d) / D))"
    using inv3_Inr [OF assms [unfolded K]] by (simp_all add: D_def)
  have sw: "\<And>x y :: real. x / D * y = y * (x / D)" by simp
  have r00: "a * ((e * i - f * h) / D) + d * ((c * h - b * i) / D) + g * ((b * f - c * e) / D) = 1"
    by (rule inv_entry_one [OF dt]) (simp add: D_def algebra_simps)
  have r01: "b * ((e * i - f * h) / D) + e * ((c * h - b * i) / D) + h * ((b * f - c * e) / D) = 0"
    by (rule inv_entry_zero) (simp add: algebra_simps)
  have r02: "c * ((e * i - f * h) / D) + f * ((c * h - b * i) / D) + i * ((b * f - c * e) / D) = 0"
    by (rule inv_entry_zero) (simp add: algebra_simps)
  have r10: "a * ((f * g - d * i) / D) + d * ((a * i - c * g) / D) + g * ((c * d - a * f) / D) = 0"
    by (rule inv_entry_zero) (simp add: algebra_simps)
  have r11: "b * ((f * g - d * i) / D) + e * ((a * i - c * g) / D) + h * ((c * d - a * f) / D) = 1"
    by (rule inv_entry_one [OF dt]) (simp add: D_def algebra_simps)
  have r12: "c * ((f * g - d * i) / D) + f * ((a * i - c * g) / D) + i * ((c * d - a * f) / D) = 0"
    by (rule inv_entry_zero) (simp add: algebra_simps)
  have r20: "a * ((d * h - e * g) / D) + d * ((b * g - a * h) / D) + g * ((a * e - b * d) / D) = 0"
    by (rule inv_entry_zero) (simp add: algebra_simps)
  have r21: "b * ((d * h - e * g) / D) + e * ((b * g - a * h) / D) + h * ((a * e - b * d) / D) = 0"
    by (rule inv_entry_zero) (simp add: algebra_simps)
  have r22: "c * ((d * h - e * g) / D) + f * ((b * g - a * h) / D) + i * ((a * e - b * d) / D) = 1"
    by (rule inv_entry_one [OF dt]) (simp add: D_def algebra_simps)
  show ?thesis
    by (simp only: K Ki matmul3.simps transpose3.simps dot.simps prod.case ident3_def sw
        r00 r01 r02 r10 r11 r12 r20 r21 r22)
qed

lemma meshgrid_uv_length: "length (meshgrid_uv w h) = w * h"
  by (simp add: meshgrid_uv_def length_concat comp_def sum_list_triv)

lemma meshgrid_uv_Suc:
  "meshgrid_uv w (Suc h) = meshgrid_uv w h @ map (\<lambda>u. (real u, real h)) [0..<w]"
  by (simp add: meshgrid_uv_def)

lemma meshgrid_uv_nth:
  "i < w * h \<Longrightarrow> meshgrid_uv w h ! i = (real (i mod w), real (i div w))"
proof (induction h)
  case 0
  then show ?case by simp
next
  case (Suc h)
  show ?case
  proof (cases "i < w * h")
    case True
    then show ?thesis
      by (simp add: meshgrid_uv_Suc nth_append meshgrid_uv_length Suc.IH)
  next
    case False
    with Suc.prems have lo: "w * h \<le> i" and hi: "i - w * h < w" by auto
    from Suc.prems have w: "0 < w" by (cases w) auto
    have i: "i = (i - w * h) + h * w" using lo by (simp add: mult.commute)
    have d: "i div w = h" by (subst i) (simp add: hi w)
    have m: "i mod w = i - w * h" by (subst i) (simp add: hi)
    show ?thesis using False hi
      by (simp add: meshgrid_uv_Suc nth_append meshgrid_uv_length d m)
  qed
qed

lemma zip_as_map_upt:
  "length xs = length ys \<Longrightarrow> zip xs ys = map (\<lambda>i. (xs ! i, ys ! i)) [0..<length xs]"
  by (rule nth_equalityI) auto

lemma bool_index_retained:
  assumes "length msk = length xs"
  shows "bool_index xs msk = Inr (map ((!) xs) (retained msk))"
proof -
  have "map fst (filter snd (zip xs msk)) = map ((!) xs) (filter (\<lambda>i. msk ! i) [0..<length xs])"
    by (subst zip_as_map_upt) (simp_all add: assms filter_map comp_def)
  then show ?thesis by (simp add: bool_index_def retained_def assms)
qed

lemma length_retained: "length (retained msk) = count_true msk"
proof -
  have "filter (\<lambda>b. b) msk = map ((!) msk) (filter (\<lambda>i. msk ! i) [0..<length msk])"
    by (subst (1) map_nth [symmetric, of msk]) (simp only: filter_map comp_def)
  then show ?thesis by (simp add: retained_def count_true_def)
qed

lemma set_retained: "set (retained msk) = {i. i < length msk \<and> msk ! i}"
  by (auto simp: retained_def)

lemma fold_assign_length [simp]:
  "length (fold (\<lambda>i m. m[i := False]) idx msk) = length msk"
  by (induction idx arbitrary: msk) simp_all

lemma fold_assign_nth:
  "i < length msk \<Longrightarrow> fold (\<lambda>i m. m[i := False]) idx msk ! i = (msk ! i \<and> i \<notin> set idx)"
proof (induction idx arbitrary: msk)
  case Nil
  then show ?case by simp
next
  case (Cons j idx)
  then show ?case by (cases "i = j") auto
qed

section \<open>The subsampling step\<close>



lemma subsample_length:
  assumes "subsample randint g lmt n msk = Inr (m, g')"
  shows "length m = length msk"
  using assms
  by (auto simp: subsample_def assign_false_def Let_def
      split: if_splits prod.splits sum.splits option.splits)

lemma subsample_subset:
  assumes "subsample randint g lmt n msk = Inr (m, g')" and "i < length msk" and "m ! i"
  shows "msk ! i"
  using assms
  by (auto simp: subsample_def assign_false_def Let_def fold_assign_nth
      split: if_splits prod.splits sum.splits option.splits)


section \<open>What \<^verbatim>\<open>calculate_x_y_z_theta_phi\<close> returns\<close>

lemma concatenate_uvd_grid:
  assumes "length depth = w * h"
  shows "concatenate_uvd (meshgrid_uv w h) depth
           = Inr (map (\<lambda>i. (real (i mod w), real (i div w), depth ! i)) [0..<w * h])"
proof -
  have "map (\<lambda>((u, v), d). (u, v, d)) (zip (meshgrid_uv w h) depth)
          = map (\<lambda>i. (real (i mod w), real (i div w), depth ! i)) [0..<w * h]"
    by (rule nth_equalityI) (simp_all add: assms meshgrid_uv_length meshgrid_uv_nth)
  then show ?thesis by (simp add: concatenate_uvd_def assms meshgrid_uv_length)
qed

lemma concatenate_uvd_mismatch:
  "length depth \<noteq> w * h \<Longrightarrow> concatenate_uvd (meshgrid_uv w h) depth = Inl ValueError"
  by (simp add: concatenate_uvd_def meshgrid_uv_length)

lemma depth_mask_grid:
  assumes "length depth = n"
  shows "depth_mask (map (\<lambda>i. (f i, g i, depth ! i)) [0..<n]) = map (\<lambda>d. d \<noteq> 0) depth"
  by (rule nth_equalityI) (simp_all add: depth_mask_def assms)

lemma retained_less: "i \<in> set (retained msk) \<Longrightarrow> i < length msk"
  by (simp add: set_retained)

lemma unproject_spec:
  assumes "inv3 K = Inr Kinv" and "length msk = w * h"
  shows "unproject c2w K
           (scale_uv (map ((!) (map (\<lambda>i. (real (i mod w), real (i div w), depth ! i)) [0..<w * h]))
                        (retained msk)))
         = Inr (map (spec_position w depth c2w Kinv) (retained msk))"
proof -
  have "\<And>i. i \<in> set (retained msk) \<Longrightarrow> i < w * h"
    using retained_less assms(2) by metis
  then show ?thesis
    by (simp add: unproject_def assms(1) scale_uv_def spec_position_def Let_def
        vec_mat_transpose3 mat_vec_matmul3 del: vec_mat.simps)
qed

lemma zip_map_both: "zip (map f xs) (map g xs) = map (\<lambda>x. (f x, g x)) xs"
  by (induction xs) simp_all

lemma calculate_Inr:
  assumes "calculate_x_y_z_theta_phi randint g self ident = Inr ((xt, msk), g')"
  shows "\<exists>label depth c2w K Kinv.
           labels self ident = Some label \<and> depths self ident = Some depth
         \<and> list_poses self ident = Some c2w \<and> list_Ks self ident = Some K
         \<and> length depth = W self * H self
         \<and> subsample randint g (limit self) (W self * H self) (map (\<lambda>d. d \<noteq> 0) depth) = Inr (msk, g')
         \<and> length msk = W self * H self
         \<and> inv3 K = Inr Kinv
         \<and> xt = map (\<lambda>i. (spec_position (W self) depth c2w Kinv i,
                          normalize3 (vsub (spec_position (W self) depth c2w Kinv i) (trans_of c2w))))
                    (retained msk)"
proof -
  from assms obtain label depth c2w K where
    lk: "labels self ident = Some label" "depths self ident = Some depth"
        "list_poses self ident = Some c2w" "list_Ks self ident = Some K"
    by (auto simp: calculate_x_y_z_theta_phi_def lookup_def split: option.splits)
  have len: "length depth = W self * H self"
  proof (rule ccontr)
    assume "length depth \<noteq> W self * H self"
    then have "concatenate_uvd (meshgrid_uv (W self) (H self)) depth = Inl ValueError"
      by (rule concatenate_uvd_mismatch)
    with assms lk show False
      by (simp add: calculate_x_y_z_theta_phi_def lookup_def)
  qed
  let ?uvd = "map (\<lambda>i. (real (i mod W self), real (i div W self), depth ! i)) [0..<W self * H self]"
  have cat: "concatenate_uvd (meshgrid_uv (W self) (H self)) depth = Inr ?uvd"
    using len by (rule concatenate_uvd_grid)
  have dm: "depth_mask ?uvd = map (\<lambda>d. d \<noteq> 0) depth"
    using len by (rule depth_mask_grid)
  from assms lk cat dm have sub:
    "subsample randint g (limit self) (W self * H self) (map (\<lambda>d. d \<noteq> 0) depth) = Inr (msk, g')"
    by (auto simp: calculate_x_y_z_theta_phi_def lookup_def split: sum.splits)
  have lm: "length msk = W self * H self"
    using subsample_length [OF sub] len by simp
  have bi: "bool_index ?uvd msk = Inr (map ((!) ?uvd) (retained msk))"
    by (rule bool_index_retained) (simp add: lm)
  from assms lk cat dm sub bi obtain Kinv where ki: "inv3 K = Inr Kinv"
    by (auto simp: calculate_x_y_z_theta_phi_def lookup_def unproject_def split: sum.splits)
  have un: "unproject c2w K (scale_uv (map ((!) ?uvd) (retained msk)))
              = Inr (map (spec_position (W self) depth c2w Kinv) (retained msk))"
    using ki lm by (rule unproject_spec)
  from assms lk cat dm sub bi un
  have "xt = map (\<lambda>i. (spec_position (W self) depth c2w Kinv i,
                          normalize3 (vsub (spec_position (W self) depth c2w Kinv i) (trans_of c2w))))
                    (retained msk)"
    by (simp add: calculate_x_y_z_theta_phi_def lookup_def directions_def zip_map_both comp_def)
  with lk len sub lm ki show ?thesis by blast
qed

lemma inv3_total: "det3 K \<noteq> 0 \<Longrightarrow> \<exists>Kinv. inv3 K = Inr Kinv"
proof -
  obtain a b c d e f g h i where K: "K = ((a, b, c), (d, e, f), (g, h, i))"
    by (metis prod_cases3)
  assume "det3 K \<noteq> 0"
  then show ?thesis unfolding K by (simp add: Let_def)
qed

lemma inv3_singular: "det3 K = 0 \<Longrightarrow> inv3 K = Inl LinAlgError"
proof -
  obtain a b c d e f g h i where K: "K = ((a, b, c), (d, e, f), (g, h, i))"
    by (metis prod_cases3)
  assume "det3 K = 0"
  then show ?thesis unfolding K by (simp add: Let_def)
qed


section \<open>Norms and directions\<close>

lemma norm3_zero_iff: "norm3 p = 0 \<longleftrightarrow> p = (0, 0, 0)"
proof -
  obtain x y z where p: "p = (x, y, z)" by (metis prod_cases3)
  have "x * x + y * y + z * z = 0 \<longleftrightarrow> x = 0 \<and> y = 0 \<and> z = 0"
  proof
    assume e: "x * x + y * y + z * z = 0"
    have "0 \<le> x * x" "0 \<le> y * y" "0 \<le> z * z" by simp_all
    with e have "x * x = 0" "y * y = 0" "z * z = 0" by linarith+
    then show "x = 0 \<and> y = 0 \<and> z = 0" by simp
  qed simp
  then show ?thesis by (simp add: p)
qed

lemma norm3_nonneg: "0 \<le> norm3 p"
  by (cases p rule: prod_cases3) simp

lemma norm3_vscale: "norm3 (vscale s p) = \<bar>s\<bar> * norm3 p"
proof -
  obtain x y z where p: "p = (x, y, z)" by (metis prod_cases3)
  have "s * x * (s * x) + s * y * (s * y) + s * z * (s * z) = (s * s) * (x * x + y * y + z * z)"
    by (simp add: algebra_simps)
  then show ?thesis by (simp add: p real_sqrt_mult)
qed

lemma norm3_unit: "norm3 p \<noteq> 0 \<Longrightarrow> norm3 (vscale (1 / norm3 p) p) = 1"
  using norm3_nonneg [of p] by (simp add: norm3_vscale)

lemma normalize3_unit:
  "p \<noteq> (0, 0, 0) \<Longrightarrow> \<exists>v. normalize3 p = Some v \<and> v = vscale (1 / norm3 p) p \<and> norm3 v = 1"
  by (simp add: normalize3_def norm3_zero_iff norm3_unit)

lemma normalize3_None: "normalize3 p = None \<longleftrightarrow> p = (0, 0, 0)"
  by (simp add: normalize3_def norm3_zero_iff)

lemma mat_vec_zero: "mat_vec A (0, 0, 0) = (0, 0, 0)"
  by (cases A rule: prod_cases3) (auto simp: split_paired_all)

lemma mat_vec_injective_zero:
  assumes "matmul3 B A = ident3" and "mat_vec A p = (0, 0, 0)"
  shows "p = (0, 0, 0)"
proof -
  have "p = mat_vec (matmul3 B A) p" by (simp add: assms(1) mat_vec_ident3)
  also have "\<dots> = mat_vec B (mat_vec A p)" by (rule mat_vec_matmul3)
  also have "\<dots> = (0, 0, 0)" by (simp add: assms(2) mat_vec_zero)
  finally show ?thesis .
qed

lemma vsub_vadd: "vsub (vadd a t) t = a"
  by (cases a rule: prod_cases3; cases t rule: prod_cases3) simp

lemma spec_position_offset:
  "vsub (spec_position w depth c2w Kinv i) (trans_of c2w)
     = mat_vec (rot_of c2w)
         (mat_vec Kinv (real (i mod w) * depth ! i, real (i div w) * depth ! i, depth ! i))"
  by (simp add: spec_position_def Let_def vsub_vadd)

lemma spec_position_off_origin:
  assumes "inv3 K = Inr Kinv" and "det3 (rot_of c2w) \<noteq> 0" and "depth ! i \<noteq> 0"
  shows "vsub (spec_position w depth c2w Kinv i) (trans_of c2w) \<noteq> (0, 0, 0)"
proof
  assume z: "vsub (spec_position w depth c2w Kinv i) (trans_of c2w) = (0, 0, 0)"
  obtain Rinv where ri: "inv3 (rot_of c2w) = Inr Rinv" using inv3_total [OF assms(2)] by blast
  let ?c = "(real (i mod w) * depth ! i, real (i div w) * depth ! i, depth ! i)"
  from z have "mat_vec (rot_of c2w) (mat_vec Kinv ?c) = (0, 0, 0)"
    by (simp add: spec_position_offset)
  then have "mat_vec Kinv ?c = (0, 0, 0)"
    by (rule mat_vec_injective_zero [OF inv3_left [OF ri]])
  then have "?c = (0, 0, 0)"
    by (rule mat_vec_injective_zero [OF inv3_right [OF assms(1)]])
  with assms(3) show False by simp
qed

section \<open>The number of draws\<close>


lemma floor_log_unique:
  fixes q r :: real
  assumes q: "0 < q" "q < 1" and r: "0 < r" and lo: "q ^ Suc k < r" and hi: "r \<le> q ^ k"
  shows "nat \<lfloor>ln r / ln q\<rfloor> = k"
proof -
  have lq: "ln q < 0" using q by simp
  have "ln r \<le> ln (q ^ k)" using hi r q by (simp add: ln_le_cancel_iff)
  then have a: "ln r \<le> real k * ln q" using q by (simp add: ln_realpow)
  have "0 < q ^ Suc k" using q by simp
  then have "ln (q ^ Suc k) < ln r" using lo r ln_less_cancel_iff by blast
  moreover have "ln (q ^ Suc k) = (real k + 1) * ln q"
    using ln_realpow [of q "Suc k"] by (simp add: algebra_simps)
  ultimately have b: "(real k + 1) * ln q < ln r" by simp
  have "real k \<le> ln r / ln q" using a lq by (simp add: le_divide_eq)
  moreover have "ln r / ln q < real k + 1" using b lq by (simp add: divide_less_eq)
  ultimately have "\<lfloor>ln r / ln q\<rfloor> = int k" by linarith
  then show ?thesis by simp
qed

lemma draw_count_unique:
  assumes "0 < l" and "2 \<le> n" and "(1 - 1 / real n) ^ Suc k < real_of_int l / real base"
    and "real_of_int l / real base \<le> (1 - 1 / real n) ^ k"
  shows "draw_count l base n = k"
proof -
  have q: "0 < 1 - 1 / real n" "1 - 1 / real n < 1" using assms(2) by simp_all
  have "0 < (1 - 1 / real n) ^ Suc k" using q by simp
  with assms(3) have r: "0 < real_of_int l / real base" by linarith
  show ?thesis unfolding draw_count_def
    by (rule floor_log_unique [OF q r assms(3,4)])
qed


lemma draw_count_2_4_4: "draw_count 2 4 4 = 2"
  by (rule draw_count_unique) (simp_all add: power2_eq_square power3_eq_cube)

section \<open>Facts about the example data\<close>


lemma dataset_ex_fields:
  "labels (dataset_ex c2w lmt depth) ''a'' = Some [(1, 0, 0), (0, 1, 0), (0, 0, 1), (1, 1, 1)]"
  "depths (dataset_ex c2w lmt depth) ''a'' = Some depth"
  "list_poses (dataset_ex c2w lmt depth) ''a'' = Some c2w"
  "list_Ks (dataset_ex c2w lmt depth) ''a'' = Some ident3"
  "limit (dataset_ex c2w lmt depth) = lmt"
  "W (dataset_ex c2w lmt depth) = 2"
  "H (dataset_ex c2w lmt depth) = 2"
  "list_ids (dataset_ex c2w lmt depth) = [''a'']"
  by (simp_all add: dataset_ex_def)


lemma inv3_ident3: "inv3 ident3 = Inr ident3"
  by (simp add: ident3_def)


lemma upt_0_4: "[0..<2 * 2] = [0, 1, 2, Suc 2]" "[0..<2] = [0, Suc 0]"
  by (simp_all add: upt_conv_Cons numeral_eq_Suc)

lemma randint_ex_0_4_2: "randint_ex 0 4 2 = ([0, 1], 2)"
  by (simp add: randint_ex_def upt_0_4)

lemma retained_4: "retained [a, b, c, d]
    = (if a then [0] else []) @ (if b then [1] else []) @ (if c then [2] else [])
      @ (if d then [3] else [])"
  by (simp add: retained_def upt_conv_Cons numeral_eq_Suc)

lemma calculate_eval:
  assumes lk: "labels self ident = Some label" "depths self ident = Some depth"
      "list_poses self ident = Some c2w" "list_Ks self ident = Some K"
    and len: "length depth = W self * H self"
    and sub: "subsample randint g (limit self) (W self * H self) (map (\<lambda>d. d \<noteq> 0) depth)
                = Inr (msk, g')"
    and ki: "inv3 K = Inr Kinv"
  shows "calculate_x_y_z_theta_phi randint g self ident
           = Inr ((map (\<lambda>i. (spec_position (W self) depth c2w Kinv i,
                          normalize3 (vsub (spec_position (W self) depth c2w Kinv i) (trans_of c2w))))
                    (retained msk), msk), g')"
proof -
  let ?uvd = "map (\<lambda>i. (real (i mod W self), real (i div W self), depth ! i)) [0..<W self * H self]"
  have cat: "concatenate_uvd (meshgrid_uv (W self) (H self)) depth = Inr ?uvd"
    using len by (rule concatenate_uvd_grid)
  have dm: "depth_mask ?uvd = map (\<lambda>d. d \<noteq> 0) depth"
    using len by (rule depth_mask_grid)
  have lm: "length msk = W self * H self"
    using subsample_length [OF sub] len by simp
  have bi: "bool_index ?uvd msk = Inr (map ((!) ?uvd) (retained msk))"
    by (rule bool_index_retained) (simp add: lm)
  have un: "unproject c2w K (scale_uv (map ((!) ?uvd) (retained msk)))
              = Inr (map (spec_position (W self) depth c2w Kinv) (retained msk))"
    using ki lm by (rule unproject_spec)
  show ?thesis
    by (simp add: calculate_x_y_z_theta_phi_def lookup_def lk cat dm sub bi un directions_def
        zip_map_both comp_def)
qed

text \<open>
  Over the reals: the direction of every returned row is the difference of the position
  and the pose's translation column, normalised; and where the rotation part of the pose
  is not singular, that difference is never zero and the direction has norm one.
\<close>

lemma directions_over_reals:
  assumes "calculate_x_y_z_theta_phi randint g self ident = Inr ((xt, msk), g')"
    and "list_poses self ident = Some c2w"
  shows "list_all (\<lambda>(p, d). d = normalize3 (vsub p (trans_of c2w))) xt
       \<and> (det3 (rot_of c2w) \<noteq> 0 \<longrightarrow>
            list_all (\<lambda>(p, d). \<exists>v. d = Some v
                         \<and> v = vscale (1 / norm3 (vsub p (trans_of c2w))) (vsub p (trans_of c2w))
                         \<and> norm3 v = 1) xt)"
proof -
  from calculate_Inr [OF assms(1)] assms(2) obtain depth K Kinv where
    len: "length depth = W self * H self"
    and sub: "subsample randint g (limit self) (W self * H self) (map (\<lambda>d. d \<noteq> 0) depth)
                = Inr (msk, g')"
    and lm: "length msk = W self * H self"
    and ki: "inv3 K = Inr Kinv"
    and xt: "xt = map (\<lambda>i. (spec_position (W self) depth c2w Kinv i,
                          normalize3 (vsub (spec_position (W self) depth c2w Kinv i) (trans_of c2w))))
                    (retained msk)"
    by auto
  have a: "list_all (\<lambda>(p, d). d = normalize3 (vsub p (trans_of c2w))) xt"
    by (simp add: xt list_all_iff)
  have b: "list_all (\<lambda>(p, d). \<exists>v. d = Some v
                         \<and> v = vscale (1 / norm3 (vsub p (trans_of c2w))) (vsub p (trans_of c2w))
                         \<and> norm3 v = 1) xt"
    if det: "det3 (rot_of c2w) \<noteq> 0"
  proof -
    have "\<exists>v. normalize3 (vsub (spec_position (W self) depth c2w Kinv i) (trans_of c2w)) = Some v
             \<and> v = vscale (1 / norm3 (vsub (spec_position (W self) depth c2w Kinv i) (trans_of c2w)))
                    (vsub (spec_position (W self) depth c2w Kinv i) (trans_of c2w))
             \<and> norm3 v = 1"
      if "i \<in> set (retained msk)" for i
    proof -
      from that have i: "i < length msk" "msk ! i" by (simp_all add: set_retained)
      with subsample_subset [OF sub, of i] len lm have "depth ! i \<noteq> 0" by simp
      from spec_position_off_origin [OF ki det this]
      show ?thesis by (rule normalize3_unit)
    qed
    then show ?thesis by (simp add: xt list_all_iff)
  qed
  from a b show ?thesis by blast
qed

section \<open>The constructor's loop and \<^verbatim>\<open>__getitem__\<close>\<close>

lemma calculate_frame:
  "calculate_x_y_z_theta_phi randint g (self\<lparr>x_trains := a, masks := b\<rparr>) ident
     = calculate_x_y_z_theta_phi randint g self ident"
  by (simp add: calculate_x_y_z_theta_phi_def cong: sum.case_cong)

lemma precalculate_result:
  "precalculate randint g self ids = Inr (ds, g1) \<Longrightarrow>
     ds = self\<lparr>x_trains := x_trains ds, masks := masks ds\<rparr>
   \<and> (\<forall>ident. ident \<notin> set ids \<longrightarrow>
          x_trains ds ident = x_trains self ident \<and> masks ds ident = masks self ident)
   \<and> (\<forall>ident\<in>set ids. \<exists>ga gb xt msk.
          calculate_x_y_z_theta_phi randint ga self ident = Inr ((xt, msk), gb)
        \<and> x_trains ds ident = Some xt \<and> masks ds ident = Some msk)"
proof (induction ids arbitrary: self g)
  case Nil
  then show ?case by simp
next
  case (Cons a ids)
  from Cons.prems obtain xt msk g' where
    calc: "calculate_x_y_z_theta_phi randint g self a = Inr ((xt, msk), g')"
    by (auto split: sum.splits)
  define self1 where
    "self1 = self\<lparr>x_trains := (x_trains self)(a \<mapsto> xt), masks := (masks self)(a \<mapsto> msk)\<rparr>"
  from Cons.prems calc have rest: "precalculate randint g' self1 ids = Inr (ds, g1)"
    by (simp add: self1_def)
  note ih = Cons.IH [OF rest]
  have cf: "\<And>ga ident. calculate_x_y_z_theta_phi randint ga self1 ident
                = calculate_x_y_z_theta_phi randint ga self ident"
    unfolding self1_def by (rule calculate_frame)
  from ih have eq1: "ds = self1\<lparr>x_trains := x_trains ds, masks := masks ds\<rparr>" by blast
  have eq: "ds = self\<lparr>x_trains := x_trains ds, masks := masks ds\<rparr>"
    by (subst eq1) (simp add: self1_def)
  from ih have out1: "\<And>ident. ident \<notin> set ids \<Longrightarrow>
      x_trains ds ident = x_trains self1 ident \<and> masks ds ident = masks self1 ident"
    by blast
  have out: "x_trains ds ident = x_trains self ident \<and> masks ds ident = masks self ident"
    if "ident \<notin> set (a # ids)" for ident
    using out1 [of ident] that by (simp add: self1_def)
  from ih have in1: "\<And>ident. ident \<in> set ids \<Longrightarrow> \<exists>ga gb xt msk.
          calculate_x_y_z_theta_phi randint ga self ident = Inr ((xt, msk), gb)
        \<and> x_trains ds ident = Some xt \<and> masks ds ident = Some msk"
    unfolding cf by blast
  have inn: "\<exists>ga gb xt msk.
          calculate_x_y_z_theta_phi randint ga self ident = Inr ((xt, msk), gb)
        \<and> x_trains ds ident = Some xt \<and> masks ds ident = Some msk"
    if "ident \<in> set (a # ids)" for ident
  proof (cases "ident \<in> set ids")
    case True
    then show ?thesis by (rule in1)
  next
    case False
    with that have ia: "ident = a" by simp
    from out1 [OF False] have "x_trains ds a = Some xt" "masks ds a = Some msk"
      by (simp_all add: ia self1_def)
    with calc show ?thesis unfolding ia by blast
  qed
  from eq out inn show ?case by blast
qed

lemma precalculate_fields:
  assumes "precalculate randint g self ids = Inr (ds, g1)"
  shows "list_ids ds = list_ids self" and "labels ds = labels self"
proof -
  from precalculate_result [OF assms]
  have eq: "ds = self\<lparr>x_trains := x_trains ds, masks := masks ds\<rparr>" by blast
  show "list_ids ds = list_ids self" by (subst eq) simp
  show "labels ds = labels self" by (subst eq) simp
qed

lemma list_get_Inr:
  "list_get xs k = Inr x \<Longrightarrow> x \<in> set xs \<and> - int (length xs) \<le> k \<and> k < int (length xs)"
  by (auto simp: list_get_def Let_def split: if_splits)

lemma list_get_in_range:
  "- int (length xs) \<le> k \<Longrightarrow> k < int (length xs) \<Longrightarrow> \<exists>x. list_get xs k = Inr x"
  by (auto simp: list_get_def Let_def)

lemma getitem_eval:
  assumes "list_get (list_ids self) k = Inr ident"
    and "masks self ident = Some msk" and "x_trains self ident = Some xt"
    and "labels self ident = Some label" and "length label = length msk"
  shows "getitem self k = Inr ((xt, map ((!) label) (retained msk), msk), self)"
  using assms bool_index_retained [of msk label]
  by (simp add: getitem_def lookup_def)

lemma getitem_state: "getitem self k = Inr (r, self') \<Longrightarrow> self' = self"
  by (auto simp: getitem_def split: sum.splits)

lemma getitem_reads:
  assumes "list_ids other = list_ids self" and "x_trains other = x_trains self"
    and "labels other = labels self" and "masks other = masks self"
    and "getitem self k = Inr (r, self)"
  shows "getitem other k = Inr (r, other)"
  using assms by (auto simp: getitem_def split: sum.splits)

lemma precalculate_single:
  assumes "calculate_x_y_z_theta_phi randint g self ident = Inr ((xt, msk), g')"
  shows "precalculate randint g self [ident]
           = Inr (self\<lparr>x_trains := (x_trains self)(ident \<mapsto> xt),
                       masks := (masks self)(ident \<mapsto> msk)\<rparr>, g')"
  by (simp add: assms)

lemma list_get_single: "list_get [x] 0 = Inr x" "list_get [x] (- 1) = Inr x"
  by (simp_all add: list_get_def)

section \<open>The expected number of surviving pixels\<close>









lemma length_all_draws: "length (all_draws n k) = n ^ k"
  by (induction k) (simp_all add: length_concat comp_def sum_list_triv)


lemma distinct_all_draws: "distinct (all_draws n k)"
proof (induction k)
  case 0
  then show ?case by simp
next
  case (Suc k)
  have inj: "\<And>y. inj ((#) y)" by (simp add: inj_def)
  show ?case
    unfolding all_draws.simps
  proof (rule distinct_concat)
    show "distinct (map (\<lambda>y. map ((#) y) (all_draws n k)) [0..<n])"
    proof (cases "all_draws n k")
      case Nil
      then have "n ^ k = 0" using length_all_draws [of n k] by simp
      then have "n = 0" by simp
      then show ?thesis by simp
    next
      case (Cons d rest)
      have "inj_on (\<lambda>y. map ((#) y) (all_draws n k)) (set [0..<n])"
        by (rule inj_onI) (simp add: Cons)
      then show ?thesis by (simp add: distinct_map)
    qed
    show "\<And>ys. ys \<in> set (map (\<lambda>y. map ((#) y) (all_draws n k)) [0..<n]) \<Longrightarrow> distinct ys"
      using Suc.IH by (auto simp: distinct_map)
    show "\<And>ys zs. ys \<in> set (map (\<lambda>y. map ((#) y) (all_draws n k)) [0..<n]) \<Longrightarrow>
             zs \<in> set (map (\<lambda>y. map ((#) y) (all_draws n k)) [0..<n]) \<Longrightarrow>
             ys \<noteq> zs \<Longrightarrow> set ys \<inter> set zs = {}"
      by auto
  qed
qed










lemma funpow_assign:
  "((\<lambda>m. m[j := False]) ^^ k) msk = (if k = 0 then msk else msk[j := False])"
  by (induction k) simp_all

lemma fold_assign_replicate:
  "fold (\<lambda>i m. m[i := False]) (replicate k j) msk = (if k = 0 then msk else msk[j := False])"
  by (simp add: funpow_assign)






section \<open>Parsing a pose\<close>

lemma fill_floats_short:
  "\<exists>i\<in>set idxs. length toks \<le> i \<Longrightarrow>
     fill_floats pyfloat toks idxs M = Inl IndexError
   \<or> fill_floats pyfloat toks idxs M = Inl ValueError"
proof (induction idxs arbitrary: M)
  case Nil
  then show ?case by simp
next
  case (Cons i idxs)
  show ?case
  proof (cases "i < length toks")
    case False
    then show ?thesis by simp
  next
    case True
    with Cons.prems have rest: "\<exists>j\<in>set idxs. length toks \<le> j" by auto
    show ?thesis
    proof (cases "pyfloat (toks ! i)")
      case None
      with True show ?thesis by simp
    next
      case (Some x)
      with True Cons.IH [OF rest, of "M[i := x]"] show ?thesis by simp
    qed
  qed
qed

lemma fill_floats_ok:
  "\<forall>i\<in>set idxs. i < length toks \<and> pyfloat (toks ! i) = Some (f i) \<Longrightarrow>
     fill_floats pyfloat toks idxs M = Inr (fold (\<lambda>i M. M[i := f i]) idxs M)"
  by (induction idxs arbitrary: M) simp_all

lemma fold_update_length [simp]: "length (fold (\<lambda>i M. M[i := f i]) idxs M) = length M"
  by (induction idxs arbitrary: M) simp_all

lemma fold_update_upt:
  "n \<le> length M \<Longrightarrow> j < n \<Longrightarrow> fold (\<lambda>i M. M[i := f i]) [0..<n] M ! j = f j"
proof (induction n)
  case 0
  then show ?case by simp
next
  case (Suc n)
  show ?case
  proof (cases "j = n")
    case True
    with Suc.prems show ?thesis by simp
  next
    case False
    with Suc.prems have "j < n" "n \<le> length M" by simp_all
    with Suc.IH False show ?thesis by simp
  qed
qed

lemma fold_update_16:
  assumes "length M = 16"
  shows "reshape44 (fold (\<lambda>i M. M[i := f i]) [0..<16] M)
           = ((f 0, f 1, f 2, f 3), (f 4, f 5, f 6, f 7),
              (f 8, f 9, f 10, f 11), (f 12, f 13, f 14, f 15))"
  unfolding reshape44_def using assms by (simp add: fold_update_upt del: upt_Suc fold_simps)

lemma split_ws_ex:
  "split_ws ''1 0 0 0 0 1 0 0 0 0 1 2 0 0 0 1''
     = [''1'', ''0'', ''0'', ''0'', ''0'', ''1'', ''0'', ''0'', ''0'', ''0'', ''1'', ''2'',
        ''0'', ''0'', ''0'', ''1'']"
  by (simp add: split_ws_def is_space_def)

lemma split_ws_short: "split_ws ''1 0  0'' = [''1'', ''0'', ''0'']"
  by (simp add: split_ws_def is_space_def)

section \<open>Labels\<close>

lemma vscale_vadd: "vscale c (vadd p q) = vadd (vscale c p) (vscale c q)"
  by (cases p rule: prod_cases3; cases q rule: prod_cases3) (simp add: algebra_simps)

lemma vscale_vscale: "vscale w (vscale c p) = vscale c (vscale w p)"
  by (cases p rule: prod_cases3) simp

lemma vscale_zero: "vscale c (0, 0, 0) = (0, 0, 0)"
  by simp

lemma div255_byte_vec: "div255 p = vscale (1 / 255) (byte_vec p)"
  by (cases p rule: prod_cases3) simp

lemma interpolate_vscale:
  "list_all (\<lambda>(i, w). i < length img) ts \<Longrightarrow>
     interpolate ts (map (vscale c) img) = vscale c (interpolate ts img)"
proof (induction ts)
  case Nil
  then show ?case by (simp add: interpolate_def)
next
  case (Cons t ts)
  obtain i w where t: "t = (i, w)" by (cases t)
  from Cons.prems have i: "i < length img" and rest: "list_all (\<lambda>(i, w). i < length img) ts"
    by (simp_all add: t)
  from Cons.IH [OF rest] have ih:
    "foldr (\<lambda>(i, w) acc. vadd (vscale w (map (vscale c) img ! i)) acc) ts (0, 0, 0)
       = vscale c (foldr (\<lambda>(i, w) acc. vadd (vscale w (img ! i)) acc) ts (0, 0, 0))"
    by (simp add: interpolate_def)
  show ?case
    unfolding interpolate_def t
    by (simp add: ih i vscale_vadd vscale_vscale del: vscale.simps vadd.simps)
qed

lemma resize_linear_vscale:
  assumes "taps_in_range taps (length img)"
  shows "resize_linear taps (map (vscale c) img) = map (vscale c) (resize_linear taps img)"
proof -
  have "interpolate ts (map (vscale c) img) = vscale c (interpolate ts img)"
    if "ts \<in> set taps" for ts
    using assms that by (intro interpolate_vscale) (simp add: taps_in_range_def list_all_iff)
  then show ?thesis by (simp add: resize_linear_def)
qed

section \<open>The Gaussian basis\<close>

lemma normal_ex_ok: "normal_ok normal_ex"
  by (simp add: normal_ok_def normal_ex_def list_all_iff)

lemma map_eq_replicate:
  "map f xs = replicate (length xs) c \<longleftrightarrow> (\<forall>z\<in>set xs. f z = c)"
  by (induction xs) auto

lemma map_scale_zero_iff:
  assumes "length row = 6"
  shows "map (\<lambda>z. z * s) row = replicate 6 (0::real) \<longleftrightarrow> s = 0 \<or> row = replicate 6 0"
proof -
  have "map (\<lambda>z. z * s) row = replicate 6 0 \<longleftrightarrow> (\<forall>z\<in>set row. z * s = 0)"
    using map_eq_replicate [of "\<lambda>z. z * s" row 0] by (simp add: assms)
  also have "\<dots> \<longleftrightarrow> s = 0 \<or> (\<forall>z\<in>set row. z = 0)" by auto
  also have "(\<forall>z\<in>set row. z = 0) \<longleftrightarrow> row = replicate 6 0"
    using map_eq_replicate [of "\<lambda>z. z" row 0] by (simp add: assms)
  finally show ?thesis .
qed

section \<open>Errors of \<^verbatim>\<open>calculate_x_y_z_theta_phi\<close>\<close>

lemma calculate_mismatch:
  assumes "labels self ident = Some label" "depths self ident = Some depth"
    "list_poses self ident = Some c2w" "list_Ks self ident = Some K"
    and "length depth \<noteq> W self * H self"
  shows "calculate_x_y_z_theta_phi randint g self ident = Inl ValueError"
  using assms concatenate_uvd_mismatch [OF assms(5)]
  by (simp add: calculate_x_y_z_theta_phi_def lookup_def)

lemma subsample_nonpositive:
  assumes "l \<le> 0" and "l < int (count_true msk)"
  shows "subsample randint g (Some l) n msk
           = Inl (if n = 0 then ZeroDivisionError else ValueError)"
  using assms by (simp add: subsample_def)

lemma calculate_nonpositive:
  assumes "labels self ident = Some label" "depths self ident = Some depth"
    "list_poses self ident = Some c2w" "list_Ks self ident = Some K"
    and "length depth = W self * H self"
    and "limit self = Some l" "l \<le> 0" "l < int (count_true (map (\<lambda>d. d \<noteq> 0) depth))"
  shows "calculate_x_y_z_theta_phi randint g self ident
           = Inl (if W self * H self = 0 then ZeroDivisionError else ValueError)"
proof -
  let ?uvd = "map (\<lambda>i. (real (i mod W self), real (i div W self), depth ! i)) [0..<W self * H self]"
  have cat: "concatenate_uvd (meshgrid_uv (W self) (H self)) depth = Inr ?uvd"
    using assms(5) by (rule concatenate_uvd_grid)
  have dm: "depth_mask ?uvd = map (\<lambda>d. d \<noteq> 0) depth"
    using assms(5) by (rule depth_mask_grid)
  show ?thesis
    by (simp add: calculate_x_y_z_theta_phi_def lookup_def assms(1-4) cat dm assms(6)
        subsample_nonpositive [OF assms(7,8)])
qed

lemma calculate_label_frame:
  "labels self ident = Some label \<Longrightarrow>
     calculate_x_y_z_theta_phi randint g (self\<lparr>labels := (labels self)(ident \<mapsto> label')\<rparr>) ident
       = calculate_x_y_z_theta_phi randint g self ident"
  by (simp add: calculate_x_y_z_theta_phi_def lookup_def cong: sum.case_cong)

lemma calculate_limit_frame:
  assumes "limit self = Some l" and "depths self ident = Some depth"
    and "int (count_true (map (\<lambda>d. d \<noteq> 0) depth)) \<le> l"
  shows "calculate_x_y_z_theta_phi randint g self ident
           = calculate_x_y_z_theta_phi randint g (self\<lparr>limit := None\<rparr>) ident"
proof (cases "length depth = W self * H self")
  case False
  then have "concatenate_uvd (meshgrid_uv (W self) (H self)) depth = Inl ValueError"
    by (rule concatenate_uvd_mismatch)
  then show ?thesis
    by (simp add: calculate_x_y_z_theta_phi_def lookup_def assms(2) split: sum.splits option.splits)
next
  case True
  let ?uvd = "map (\<lambda>i. (real (i mod W self), real (i div W self), depth ! i)) [0..<W self * H self]"
  have cat: "concatenate_uvd (meshgrid_uv (W self) (H self)) depth = Inr ?uvd"
    using True by (rule concatenate_uvd_grid)
  have dm: "depth_mask ?uvd = map (\<lambda>d. d \<noteq> 0) depth"
    using True by (rule depth_mask_grid)
  have s: "subsample randint g (Some l) (W self * H self) (map (\<lambda>d. d \<noteq> 0) depth)
             = subsample randint g None (W self * H self) (map (\<lambda>d. d \<noteq> 0) depth)"
    using assms(3) by (simp add: subsample_def)
  show ?thesis
    by (simp add: calculate_x_y_z_theta_phi_def lookup_def assms(1,2) cat dm s
        split: sum.splits option.splits)
qed

section \<open>Rounding to \<^verbatim>\<open>float32\<close>\<close>



















































section \<open>The properties\<close>








text \<open>
  C4. After the constructor's loop, \<^verbatim>\<open>__getitem__\<close> returns for an identifier the
  rows of \<^verbatim>\<open>x_train\<close>, the masked labels and the mask, where: the mask has one entry
  per pixel and is false at every pixel of depth zero, so that such a pixel is not among
  the retained indices; the positions, the directions and the masked labels each have as
  many rows as the mask has true entries; and row \<open>j\<close> of each belongs to the \<open>j\<close>-th
  retained pixel in row-major order, the masked labels being the label rows at the
  retained indices.
\<close>

theorem masked_pixels_excluded:
  assumes "precalculate randint g self (list_ids self) = Inr (ds, g1)"
    and "list_get (list_ids self) k = Inr ident"
    and "depths self ident = Some depth"
    and "list_poses self ident = Some c2w"
    and "labels self ident = Some label"
    and "length label = W self * H self"
  shows "\<exists>xt masked msk Kinv.
           getitem ds k = Inr ((xt, masked, msk), ds)
         \<and> length msk = length depth
         \<and> (\<forall>i<length depth. depth ! i = 0 \<longrightarrow> \<not> msk ! i \<and> i \<notin> set (retained msk))
         \<and> length (map fst xt) = count_true msk
         \<and> length (map snd xt) = count_true msk
         \<and> length masked = count_true msk
         \<and> masked = map ((!) label) (retained msk)
         \<and> xt = map (\<lambda>i. (spec_position (W self) depth c2w Kinv i,
                          normalize3 (vsub (spec_position (W self) depth c2w Kinv i) (trans_of c2w))))
                    (retained msk)"
proof -
  from list_get_Inr [OF assms(2)] have mem: "ident \<in> set (list_ids self)" by simp
  with precalculate_result [OF assms(1)] obtain ga gb xt msk where
    calc: "calculate_x_y_z_theta_phi randint ga self ident = Inr ((xt, msk), gb)"
    and xs: "x_trains ds ident = Some xt" and ms: "masks ds ident = Some msk"
    by blast
  from calculate_Inr [OF calc] obtain depth' c2w' Kinv where
    "depths self ident = Some depth'" "list_poses self ident = Some c2w'"
    "length depth' = W self * H self"
    "subsample randint ga (limit self) (W self * H self) (map (\<lambda>d. d \<noteq> 0) depth')
                = Inr (msk, gb)"
    "length msk = W self * H self"
    "xt = map (\<lambda>i. (spec_position (W self) depth' c2w' Kinv i,
                          normalize3 (vsub (spec_position (W self) depth' c2w' Kinv i) (trans_of c2w'))))
                    (retained msk)"
    by blast
  with assms(3,4) have
    len: "length depth = W self * H self"
    and sub: "subsample randint ga (limit self) (W self * H self) (map (\<lambda>d. d \<noteq> 0) depth)
                = Inr (msk, gb)"
    and lm: "length msk = W self * H self"
    and xt: "xt = map (\<lambda>i. (spec_position (W self) depth c2w Kinv i,
                          normalize3 (vsub (spec_position (W self) depth c2w Kinv i) (trans_of c2w))))
                    (retained msk)"
    by simp_all
  have ids: "list_get (list_ids ds) k = Inr ident"
    using assms(2) precalculate_fields(1) [OF assms(1)] by simp
  have lab: "labels ds ident = Some label"
    using assms(5) precalculate_fields(2) [OF assms(1)] by simp
  have get: "getitem ds k = Inr ((xt, map ((!) label) (retained msk), msk), ds)"
    by (rule getitem_eval [OF ids ms xs lab]) (simp add: assms(6) lm)
  have zero: "\<not> msk ! i \<and> i \<notin> set (retained msk)" if "i < length depth" "depth ! i = 0" for i
  proof -
    have "\<not> msk ! i"
    proof
      assume "msk ! i"
      from subsample_subset [OF sub _ this] that show False by simp
    qed
    then show ?thesis by (simp add: set_retained)
  qed
  have l1: "length (map fst xt) = count_true msk" "length (map snd xt) = count_true msk"
    by (simp_all add: xt length_retained)
  have l2: "length (map ((!) label) (retained msk)) = count_true msk"
    by (simp add: length_retained)
  from get len lm zero l1 l2 xt show ?thesis by (intro exI conjI) auto
qed

theorem masked_pixels_excluded_witness:
  "\<exists>ds xt. precalculate randint_ex 0 (dataset_ex pose_ex None [2, 0, 2, 2])
              (list_ids (dataset_ex pose_ex None [2, 0, 2, 2])) = Inr (ds, 0)
         \<and> getitem ds 0 = Inr ((xt, [(1, 0, 0), (0, 0, 1), (1, 1, 1)], [True, False, True, True]), ds)
         \<and> length xt = 3"
proof -
  let ?ds = "dataset_ex pose_ex None [2, 0, 2, 2]"
  have sub: "subsample randint_ex 0 (limit ?ds) (W ?ds * H ?ds) (map (\<lambda>d. d \<noteq> 0) [2, 0, 2, 2 :: real])
               = Inr ([True, False, True, True], 0)"
    by (simp add: dataset_ex_fields subsample_def)
  have len: "length [2, 0, 2, 2 :: real] = W ?ds * H ?ds"
    by (simp add: dataset_ex_fields)
  note calc = calculate_eval [OF dataset_ex_fields(1-4) len sub inv3_ident3]
  note pre0 = precalculate_single [OF calc]
  define ds where "ds = fst (projr (precalculate randint_ex 0 ?ds [''a'']))"
  have pre: "precalculate randint_ex 0 ?ds (list_ids ?ds) = Inr (ds, 0)"
    unfolding ds_def dataset_ex_fields(8) pre0 by simp
  have m: "masks ds ''a'' = Some [True, False, True, True]"
    unfolding ds_def pre0 by simp
  have k: "list_get (list_ids ?ds) 0 = Inr ''a''"
    by (simp add: dataset_ex_fields list_get_single)
  have ll: "length [(1, 0, 0), (0, 1, 0), (0, 0, 1), (1, 1, 1 :: real)] = W ?ds * H ?ds"
    by (simp add: dataset_ex_fields)
  from masked_pixels_excluded [OF pre k dataset_ex_fields(2,3,1) ll]
  obtain xt masked msk where
    get: "getitem ds 0 = Inr ((xt, masked, msk), ds)"
    and cnt: "length (map fst xt) = count_true msk"
    and masked: "masked = map ((!) [(1, 0, 0), (0, 1, 0), (0, 0, 1), (1, 1, 1 :: real)]) (retained msk)"
    by blast
  have ids: "list_ids ds = [''a'']"
    using precalculate_fields(1) [OF pre] by (simp add: dataset_ex_fields)
  from get m have msk: "msk = [True, False, True, True]"
    by (auto simp: getitem_def lookup_def ids list_get_single split: sum.splits)
  have "masked = [(1, 0, 0), (0, 0, 1), (1, 1, 1)]"
    by (simp add: masked msk retained_4)
  moreover have "length xt = 3" using cnt by (simp add: msk count_true_def)
  ultimately show ?thesis using pre get msk by blast
qed




text \<open>
  C6. The pose of an identifier is read from the text that follows it: the text is
  split at whitespace, the first sixteen tokens are converted to floats and laid out
  row-major as a \<open>4 \<times> 4\<close> matrix, and columns 1 and 2 are negated. With fewer than
  sixteen tokens the call fails (with Python's \<^verbatim>\<open>IndexError\<close> at the first missing
  token, or with \<^verbatim>\<open>ValueError\<close> at an earlier token that is not a float).
\<close>

theorem parse_pose_spec:
  "(length (split_ws extrinsic) < 16 \<longrightarrow>
      parse_pose pyfloat extrinsic = Inl IndexError \<or> parse_pose pyfloat extrinsic = Inl ValueError)
 \<and> (length xs = 16 \<and> map pyfloat (take 16 (split_ws extrinsic)) = map Some xs \<longrightarrow>
      parse_pose pyfloat extrinsic =
        Inr ((xs ! 0, - xs ! 1, - xs ! 2, xs ! 3), (xs ! 4, - xs ! 5, - xs ! 6, xs ! 7),
             (xs ! 8, - xs ! 9, - xs ! 10, xs ! 11), (xs ! 12, - xs ! 13, - xs ! 14, xs ! 15)))"
proof (intro conjI impI)
  let ?toks = "split_ws extrinsic"
  assume "length ?toks < 16"
  then have "\<exists>i\<in>set [0..<16]. length ?toks \<le> i" by (intro bexI [of _ 15]) simp_all
  from fill_floats_short [OF this, of pyfloat "replicate 16 0"]
  show "parse_pose pyfloat extrinsic = Inl IndexError \<or> parse_pose pyfloat extrinsic = Inl ValueError"
    by (auto simp: parse_pose_def)
next
  let ?toks = "split_ws extrinsic"
  assume a: "length xs = 16 \<and> map pyfloat (take 16 ?toks) = map Some xs"
  then have "length (map pyfloat (take 16 ?toks)) = 16" by simp
  then have lt: "16 \<le> length ?toks" by simp
  have tok: "i < length ?toks \<and> pyfloat (?toks ! i) = Some (xs ! i)" if "i \<in> set [0..<16]" for i
  proof -
    from that have i: "i < 16" by simp
    have l: "map pyfloat (take 16 ?toks) ! i = pyfloat (?toks ! i)" using i lt by simp
    have r: "map Some xs ! i = Some (xs ! i)" using i a by simp
    from a have "map pyfloat (take 16 ?toks) ! i = map Some xs ! i" by (simp only:)
    with l r have "pyfloat (?toks ! i) = Some (xs ! i)" by (simp only:)
    with i lt show ?thesis by simp
  qed
  then have "\<forall>i\<in>set [0..<16]. i < length ?toks \<and> pyfloat (?toks ! i) = Some (xs ! i)"
    by blast
  from fill_floats_ok [OF this, of "replicate 16 0"]
  have "parse_pose pyfloat extrinsic
          = Inr (negate_col2 (negate_col1 (reshape44
                  (fold (\<lambda>i M. M[i := xs ! i]) [0..<16] (replicate 16 0)))))"
    by (simp add: parse_pose_def)
  also have "reshape44 (fold (\<lambda>i M. M[i := xs ! i]) [0..<16] (replicate 16 0))
               = ((xs ! 0, xs ! 1, xs ! 2, xs ! 3), (xs ! 4, xs ! 5, xs ! 6, xs ! 7),
                  (xs ! 8, xs ! 9, xs ! 10, xs ! 11), (xs ! 12, xs ! 13, xs ! 14, xs ! 15))"
    by (rule fold_update_16) simp
  finally show "parse_pose pyfloat extrinsic =
        Inr ((xs ! 0, - xs ! 1, - xs ! 2, xs ! 3), (xs ! 4, - xs ! 5, - xs ! 6, xs ! 7),
             (xs ! 8, - xs ! 9, - xs ! 10, xs ! 11), (xs ! 12, - xs ! 13, - xs ! 14, xs ! 15))"
    by simp
qed

theorem parse_pose_spec_witness:
  "parse_pose pyfloat_ex ''1 0 0 0 0 1 0 0 0 0 1 2 0 0 0 1''
     = Inr ((1, 0, 0, 0), (0, - 1, 0, 0), (0, 0, - 1, 2), (0, 0, 0, 1))
 \<and> (parse_pose pyfloat_ex ''1 0  0'' = Inl IndexError
      \<or> parse_pose pyfloat_ex ''1 0  0'' = Inl ValueError)"
proof -
  let ?xs = "[1, 0, 0, 0, 0, 1, 0, 0, 0, 0, 1, 2, 0, 0, 0, 1 :: real]"
  have a: "length ?xs = 16
      \<and> map pyfloat_ex (take 16 (split_ws ''1 0 0 0 0 1 0 0 0 0 1 2 0 0 0 1'')) = map Some ?xs"
    unfolding split_ws_ex by (simp add: pyfloat_ex_def)
  from parse_pose_spec [of "''1 0 0 0 0 1 0 0 0 0 1 2 0 0 0 1''" pyfloat_ex ?xs] a
  have 1: "parse_pose pyfloat_ex ''1 0 0 0 0 1 0 0 0 0 1 2 0 0 0 1''
     = Inr ((1, 0, 0, 0), (0, - 1, 0, 0), (0, 0, - 1, 2), (0, 0, 0, 1))"
    by simp
  have b: "length (split_ws ''1 0  0'') < 16" unfolding split_ws_short by simp
  from parse_pose_spec [of "''1 0  0''" pyfloat_ex ?xs] b
  have 2: "parse_pose pyfloat_ex ''1 0  0'' = Inl IndexError
      \<or> parse_pose pyfloat_ex ''1 0  0'' = Inl ValueError"
    by blast
  from 1 2 show ?thesis by blast
qed

text \<open>
  C7, as amended. The method fails (with numpy's \<^verbatim>\<open>ValueError\<close>) when the depth
  buffer does not have one entry per pixel of the \<open>H \<times> W\<close> grid; it never looks at the
  colour buffer, so no shape of the colour buffer makes it fail. A limit that is not
  positive makes it fail (with \<^verbatim>\<open>ValueError\<close>, or \<^verbatim>\<open>ZeroDivisionError\<close> for an
  empty grid) only where the limit is below the number of valid pixels; a limit that the
  number of valid pixels does not exceed has no effect, whatever its sign.
\<close>

theorem build_samples_errors:
  assumes "labels self ident = Some label" and "depths self ident = Some depth"
    and "list_poses self ident = Some c2w" and "list_Ks self ident = Some K"
  shows "(length depth \<noteq> W self * H self \<longrightarrow>
            calculate_x_y_z_theta_phi randint g self ident = Inl ValueError)
       \<and> (\<forall>l. length depth = W self * H self \<and> limit self = Some l \<and> l \<le> 0
               \<and> l < int (count_true (map (\<lambda>d. d \<noteq> 0) depth)) \<longrightarrow>
            calculate_x_y_z_theta_phi randint g self ident
              = Inl (if W self * H self = 0 then ZeroDivisionError else ValueError))
       \<and> (\<forall>l. limit self = Some l \<and> int (count_true (map (\<lambda>d. d \<noteq> 0) depth)) \<le> l \<longrightarrow>
            calculate_x_y_z_theta_phi randint g self ident
              = calculate_x_y_z_theta_phi randint g (self\<lparr>limit := None\<rparr>) ident)
       \<and> (\<forall>label'.
            calculate_x_y_z_theta_phi randint g (self\<lparr>labels := (labels self)(ident \<mapsto> label')\<rparr>) ident
              = calculate_x_y_z_theta_phi randint g self ident)"
proof (intro conjI allI impI)
  assume "length depth \<noteq> W self * H self"
  then show "calculate_x_y_z_theta_phi randint g self ident = Inl ValueError"
    by (rule calculate_mismatch [OF assms])
next
  fix l
  assume "length depth = W self * H self \<and> limit self = Some l \<and> l \<le> 0
               \<and> l < int (count_true (map (\<lambda>d. d \<noteq> 0) depth))"
  then have "length depth = W self * H self" "limit self = Some l" "l \<le> 0"
    "l < int (count_true (map (\<lambda>d. d \<noteq> 0) depth))"
    by blast+
  then show "calculate_x_y_z_theta_phi randint g self ident
              = Inl (if W self * H self = 0 then ZeroDivisionError else ValueError)"
    by (rule calculate_nonpositive [OF assms])
next
  fix l
  assume "limit self = Some l \<and> int (count_true (map (\<lambda>d. d \<noteq> 0) depth)) \<le> l"
  then have "limit self = Some l" "int (count_true (map (\<lambda>d. d \<noteq> 0) depth)) \<le> l"
    by blast+
  then show "calculate_x_y_z_theta_phi randint g self ident
              = calculate_x_y_z_theta_phi randint g (self\<lparr>limit := None\<rparr>) ident"
    by (rule calculate_limit_frame [OF _ assms(2)])
next
  fix label'
  show "calculate_x_y_z_theta_phi randint g (self\<lparr>labels := (labels self)(ident \<mapsto> label')\<rparr>) ident
              = calculate_x_y_z_theta_phi randint g self ident"
    by (rule calculate_label_frame [OF assms(1)])
qed

theorem build_samples_errors_witness:
  "calculate_x_y_z_theta_phi randint_ex 0 (dataset_ex pose_ex None [2, 0, 2]) ''a'' = Inl ValueError
 \<and> calculate_x_y_z_theta_phi randint_ex 0 (dataset_ex pose_ex (Some 0) [2, 0, 2, 2]) ''a''
     = Inl ValueError
 \<and> calculate_x_y_z_theta_phi randint_ex 0 (dataset_ex pose_ex (Some (- 1)) [2, 0, 2, 2]) ''a''
     = Inl ValueError"
proof -
  have 1: "calculate_x_y_z_theta_phi randint_ex 0 (dataset_ex pose_ex None [2, 0, 2]) ''a''
             = Inl ValueError"
    using build_samples_errors [OF dataset_ex_fields(1-4) [of pose_ex None "[2, 0, 2]"],
        where randint = randint_ex and g = 0]
    by (simp add: dataset_ex_fields)
  have 2: "calculate_x_y_z_theta_phi randint_ex 0 (dataset_ex pose_ex (Some l) [2, 0, 2, 2]) ''a''
             = Inl ValueError" if "l \<le> 0" for l
    using build_samples_errors [OF dataset_ex_fields(1-4) [of pose_ex "Some l" "[2, 0, 2, 2]"],
        where randint = randint_ex and g = 0, THEN conjunct2, THEN conjunct1, THEN spec, of l] that
    by (simp add: dataset_ex_fields count_true_def)
  from 1 2 [of 0] 2 [of "- 1"] show ?thesis by simp
qed

theorem build_samples_errors_counterexample:
  "calculate_x_y_z_theta_phi randint_ex 0 (dataset_ex pose_ex (Some 0) [0, 0, 0, 0]) ''a''
     = Inr (([], [False, False, False, False]), 0)
 \<and> calculate_x_y_z_theta_phi randint_ex 0
      ((dataset_ex pose_ex None [2, 0, 2, 2])\<lparr>labels := [''a'' \<mapsto> [(1, 0, 0)]]\<rparr>) ''a''
     = calculate_x_y_z_theta_phi randint_ex 0 (dataset_ex pose_ex None [2, 0, 2, 2]) ''a''
 \<and> (\<exists>xt. calculate_x_y_z_theta_phi randint_ex 0 (dataset_ex pose_ex None [2, 0, 2, 2]) ''a''
      = Inr ((xt, [True, False, True, True]), 0))"
proof -
  let ?ds = "dataset_ex pose_ex (Some 0) [0, 0, 0, 0]"
  have sub: "subsample randint_ex 0 (limit ?ds) (W ?ds * H ?ds) (map (\<lambda>d. d \<noteq> 0) [0, 0, 0, 0 :: real])
               = Inr ([False, False, False, False], 0)"
    by (simp add: dataset_ex_fields subsample_def count_true_def)
  have len: "length [0, 0, 0, 0 :: real] = W ?ds * H ?ds"
    by (simp add: dataset_ex_fields)
  have 1: "calculate_x_y_z_theta_phi randint_ex 0 ?ds ''a''
             = Inr (([], [False, False, False, False]), 0)"
    by (subst calculate_eval [OF dataset_ex_fields(1-4) len sub inv3_ident3])
      (simp add: retained_4)
  let ?d2 = "dataset_ex pose_ex None [2, 0, 2, 2]"
  have 2: "calculate_x_y_z_theta_phi randint_ex 0 (?d2\<lparr>labels := [''a'' \<mapsto> [(1, 0, 0)]]\<rparr>) ''a''
             = calculate_x_y_z_theta_phi randint_ex 0 ?d2 ''a''"
    using calculate_label_frame [OF dataset_ex_fields(1) [of pose_ex None "[2, 0, 2, 2]"],
        where randint = randint_ex and g = 0 and label' = "[(1, 0, 0)]"]
    by (simp add: dataset_ex_def)
  have sub2: "subsample randint_ex 0 (limit ?d2) (W ?d2 * H ?d2) (map (\<lambda>d. d \<noteq> 0) [2, 0, 2, 2 :: real])
               = Inr ([True, False, True, True], 0)"
    by (simp add: dataset_ex_fields subsample_def)
  have len2: "length [2, 0, 2, 2 :: real] = W ?d2 * H ?d2"
    by (simp add: dataset_ex_fields)
  note 3 = calculate_eval [OF dataset_ex_fields(1-4) len2 sub2 inv3_ident3]
  from 1 2 3 show ?thesis by blast
qed

text \<open>
  C8. The label buffer the constructor caches (divide by 255, then resize where the
  shape is not the target's) is the buffer of the specification's order (resize where
  the shape is not the target's, then divide by 255), for a resize that is a linear
  interpolation reading pixels of its input.
\<close>

theorem load_label_refines:
  assumes "shape img \<noteq> (hh, ww)
             \<longrightarrow> taps_in_range (taps (shape img) (hh, ww)) (length (pixels img))"
  shows "load_label taps hh ww img = load_label_spec taps hh ww img"
proof -
  have d: "map div255 (pixels img) = map (vscale (1 / 255)) (map byte_vec (pixels img))"
    by (simp add: div255_byte_vec)
  show ?thesis
  proof (cases "shape img \<noteq> (hh, ww)")
    case False
    then show ?thesis by (simp add: load_label_def load_label_spec_def d Let_def)
  next
    case True
    with assms have "taps_in_range (taps (shape img) (hh, ww)) (length (map byte_vec (pixels img)))"
      by simp
    from resize_linear_vscale [OF this, of "1 / 255"] True show ?thesis
      unfolding load_label_def load_label_spec_def Let_def d by simp
  qed
qed

theorem load_label_refines_witness:
  "load_label taps_ex 1 1 image_ex = [(1 / 2, 1 / 2, 1 / 2)]
     \<and> load_label_spec taps_ex 1 1 image_ex = [(1 / 2, 1 / 2, 1 / 2)]"
proof -
  have r: "taps_in_range (taps_ex (shape image_ex) (1, 1)) (length (pixels image_ex))"
    by (simp add: taps_in_range_def taps_ex_def image_ex_def)
  have a: "load_label taps_ex 1 1 image_ex = [(1 / 2, 1 / 2, 1 / 2)]"
    by (simp add: load_label_def image_ex_def taps_ex_def resize_linear_def interpolate_def)
  from load_label_refines [of image_ex 1 1 taps_ex] r a show ?thesis by simp
qed

text \<open>
  C9, as amended. With no checkpoint, the basis is the matrix drawn by
  \<^verbatim>\<open>torch.normal(0, 1, size=(N, 6))\<close> with every entry multiplied by the scale: it has
  \<open>N\<close> rows of six entries. Nothing inspects its rows: row \<open>i\<close> is the zero vector exactly
  when the scale is zero or row \<open>i\<close> of the draw is, and the matrix is returned as it is.
\<close>

theorem ffm_B_shape:
  assumes "normal_ok normal" and "0 \<le> n"
  shows "\<exists>B g'. ffm_B normal g None n scale = Inr (B, g')
           \<and> length B = nat n \<and> list_all (\<lambda>row. length row = 6) B
           \<and> B = map (map (\<lambda>z. z * scale)) (fst (normal g (nat n) 6))
           \<and> (\<forall>i<nat n. B ! i = replicate 6 0
                  \<longleftrightarrow> scale = 0 \<or> fst (normal g (nat n) 6) ! i = replicate 6 0)"
proof -
  obtain Z g' where z: "normal g (nat n) 6 = (Z, g')" by (cases "normal g (nat n) 6")
  from assms(1) have "length (fst (normal g (nat n) 6)) = nat n"
    and "list_all (\<lambda>row. length row = 6) (fst (normal g (nat n) 6))"
    by (simp_all add: normal_ok_def)
  then have lz: "length Z = nat n" and rz: "list_all (\<lambda>row. length row = 6) Z"
    by (simp_all add: z)
  let ?B = "map (map (\<lambda>z. z * scale)) Z"
  have b: "ffm_B normal g None n scale = Inr (?B, g')"
    using assms(2) by (simp add: ffm_B_def z)
  have rows: "list_all (\<lambda>row. length row = 6) ?B"
    using rz by (simp add: list_all_iff)
  have zero: "?B ! i = replicate 6 0 \<longleftrightarrow> scale = 0 \<or> Z ! i = replicate 6 0" if "i < nat n" for i
  proof -
    from that lz rz have "length (Z ! i) = 6" by (simp add: list_all_length)
    from map_scale_zero_iff [OF this] that lz show ?thesis by simp
  qed
  from b lz rows zero show ?thesis by (simp add: z)
qed

theorem ffm_B_shape_witness:
  "\<exists>B g'. ffm_B normal_ex () None 1024 10 = Inr (B, g')
      \<and> length B = 1024 \<and> list_all (\<lambda>row. length row = 6) B"
proof -
  have n: "(0::int) \<le> 1024" by simp
  from ffm_B_shape [OF normal_ex_ok n, of "()" 10]
  obtain B g' where "ffm_B normal_ex () None 1024 10 = Inr (B, g')"
    "length B = nat 1024" "list_all (\<lambda>row. length row = 6) B"
    by blast
  then show ?thesis by (intro exI [of _ B] exI [of _ g']) simp
qed

theorem ffm_B_shape_counterexample:
  "ffm_B normal_ex () None 2 0 = Inr ([[0, 0, 0, 0, 0, 0], [0, 0, 0, 0, 0, 0]], ())"
  by (simp add: ffm_B_def normal_ex_def numeral_eq_Suc)

text \<open>
  C10. On a dataset the constructor's loop has filled, whose labels have one row per
  pixel, \<^verbatim>\<open>__getitem__\<close> returns for every index in range (negative indices count
  from the end); the dataset after the call is the dataset before it; a second call
  returns the same triple; and the triple depends on the fields \<^verbatim>\<open>list_ids\<close>,
  \<^verbatim>\<open>x_trains\<close>, \<^verbatim>\<open>labels\<close> and \<^verbatim>\<open>masks\<close> only.
\<close>

theorem getitem_pure:
  assumes "precalculate randint g self0 (list_ids self0) = Inr (self, g1)"
    and "\<forall>ident\<in>set (list_ids self0).
           \<exists>label. labels self0 ident = Some label \<and> length label = W self0 * H self0"
    and "- int (length (list_ids self)) \<le> k" and "k < int (length (list_ids self))"
  shows "\<exists>r. getitem self k = Inr (r, self)
           \<and> (\<forall>r' self'. getitem self k = Inr (r', self') \<longrightarrow> getitem self' k = Inr (r, self))
           \<and> (\<forall>other :: 'rd dataset.
                 list_ids other = list_ids self \<and> x_trains other = x_trains self
               \<and> labels other = labels self \<and> masks other = masks self
               \<longrightarrow> getitem other k = Inr (r, other))"
proof -
  have ids: "list_ids self = list_ids self0" by (rule precalculate_fields(1) [OF assms(1)])
  from list_get_in_range [OF assms(3,4)] obtain ident where
    k: "list_get (list_ids self) k = Inr ident" by blast
  with list_get_Inr [OF k] have mem: "ident \<in> set (list_ids self0)" by (simp add: ids)
  with assms(2) obtain label where
    lab0: "labels self0 ident = Some label" and ll: "length label = W self0 * H self0" by blast
  from mem precalculate_result [OF assms(1)] obtain ga gb xt msk where
    calc: "calculate_x_y_z_theta_phi randint ga self0 ident = Inr ((xt, msk), gb)"
    and xs: "x_trains self ident = Some xt" and ms: "masks self ident = Some msk"
    by blast
  from calculate_Inr [OF calc] have lm: "length msk = W self0 * H self0" by blast
  have lab: "labels self ident = Some label"
    using lab0 precalculate_fields(2) [OF assms(1)] by simp
  have get: "getitem self k = Inr ((xt, map ((!) label) (retained msk), msk), self)"
    by (rule getitem_eval [OF k ms xs lab]) (simp add: ll lm)
  have again: "getitem self' k = Inr ((xt, map ((!) label) (retained msk), msk), self)"
    if "getitem self k = Inr (r', self')" for r' self'
    using getitem_state [OF that] get by simp
  have reads: "getitem other k = Inr ((xt, map ((!) label) (retained msk), msk), other)"
    if "list_ids other = list_ids self \<and> x_trains other = x_trains self
               \<and> labels other = labels self \<and> masks other = masks self"
    for other :: "'rd dataset"
    using that get by (intro getitem_reads [of other self]) simp_all
  from get again reads show ?thesis by blast
qed

theorem getitem_pure_witness:
  "\<exists>ds r. precalculate randint_ex 0 (dataset_ex pose_ex (Some 2) [1, 1, 1, 1])
              (list_ids (dataset_ex pose_ex (Some 2) [1, 1, 1, 1])) = Inr (ds, 2)
         \<and> getitem ds (- 1) = Inr (r, ds)
         \<and> snd (snd r) = [False, False, True, True]"
proof -
  let ?ds = "dataset_ex pose_ex (Some 2) [1, 1, 1, 1]"
  have c: "count_true (map (\<lambda>d. d \<noteq> 0) [1, 1, 1, 1 :: real]) = 4"
    by (simp add: count_true_def)
  have n: "(2::nat) * 2 = 4" by simp
  have sub: "subsample randint_ex 0 (limit ?ds) (W ?ds * H ?ds) (map (\<lambda>d. d \<noteq> 0) [1, 1, 1, 1 :: real])
               = Inr ([False, False, True, True], 2)"
    unfolding dataset_ex_fields subsample_def Let_def c n option.case
    by (simp add: draw_count_2_4_4 randint_ex_0_4_2 assign_false_def)
  have len: "length [1, 1, 1, 1 :: real] = W ?ds * H ?ds"
    by (simp add: dataset_ex_fields)
  note calc = calculate_eval [OF dataset_ex_fields(1-4) len sub inv3_ident3]
  note pre0 = precalculate_single [OF calc]
  define ds where "ds = fst (projr (precalculate randint_ex 0 ?ds [''a'']))"
  have pre: "precalculate randint_ex 0 ?ds (list_ids ?ds) = Inr (ds, 2)"
    unfolding ds_def dataset_ex_fields(8) pre0 by simp
  have m: "masks ds ''a'' = Some [False, False, True, True]"
    unfolding ds_def pre0 by simp
  have ids: "list_ids ds = [''a'']"
    using precalculate_fields(1) [OF pre] by (simp add: dataset_ex_fields)
  have lab: "\<forall>ident\<in>set (list_ids ?ds).
           \<exists>label. labels ?ds ident = Some label \<and> length label = W ?ds * H ?ds"
    by (simp add: dataset_ex_fields)
  have r1: "- int (length (list_ids ds)) \<le> - 1" and r2: "- 1 < int (length (list_ids ds))"
    by (simp_all add: ids)
  from getitem_pure [OF pre lab r1 r2] obtain r where get: "getitem ds (- 1) = Inr (r, ds)"
    by blast
  from get m have "snd (snd r) = [False, False, True, True]"
    by (auto simp: getitem_def lookup_def ids list_get_single split: sum.splits)
  with pre get show ?thesis by blast
qed

end
